theory Spec2Isabelle
  imports Main "HOL-Library.AList"
begin

section \<open>JavaScript values and the key/value store\<close>

text \<open>
  The extension keeps its records in \<^verbatim>\<open>chrome.storage\<close> as JSON objects. A JSON value is
  a \<open>jsval\<close>; numbers are the integers the program uses (millisecond clock readings and
  counters, all far below \<open>2^53\<close>). An object is an association list in insertion
  order; writing a property that exists keeps its place, a new one goes to the end,
  which is what \<open>AList.update\<close> does.
\<close>

datatype jsval =
    JUndefined
  | JNull
  | JBool bool
  | JNum int
  | JStr string
  | JArr "jsval list"
  | JObj "(string \<times> jsval) list"

type_synonym jsobj = "(string \<times> jsval) list"

text \<open>The store: \<^verbatim>\<open>chrome.storage.local\<close> or \<^verbatim>\<open>chrome.storage.sync\<close>, from key to value.\<close>

type_synonym storage = "(string \<times> jsval) list"

text \<open>JavaScript truthiness, as \<^verbatim>\<open>!x\<close>, \<^verbatim>\<open>x || y\<close> and \<^verbatim>\<open>x && y\<close> test it.\<close>

fun truthy :: "jsval \<Rightarrow> bool" where
  "truthy JUndefined = False"
| "truthy JNull = False"
| "truthy (JBool b) = b"
| "truthy (JNum n) = (n \<noteq> 0)"
| "truthy (JStr s) = (s \<noteq> [])"
| "truthy (JArr xs) = True"
| "truthy (JObj ob) = True"

text \<open>\<^verbatim>\<open>obj[k]\<close> on an object literal or on the result of \<^verbatim>\<open>storage.get\<close>: a missing key
  reads as \<^verbatim>\<open>undefined\<close>.\<close>

definition obj_get :: "jsobj \<Rightarrow> string \<Rightarrow> jsval" where
  "obj_get ob k = (case map_of ob k of None \<Rightarrow> JUndefined | Some v \<Rightarrow> v)"

text \<open>\<^verbatim>\<open>v.k\<close> on a value that is known not to be \<^verbatim>\<open>null\<close> or \<^verbatim>\<open>undefined\<close>: only an
  object has named properties of its own.\<close>

fun val_get :: "jsval \<Rightarrow> string \<Rightarrow> jsval" where
  "val_get (JObj ob) k = obj_get ob k"
| "val_get v k = JUndefined"

text \<open>\<^verbatim>\<open>a || b\<close> on values.\<close>

definition js_or :: "jsval \<Rightarrow> jsval \<Rightarrow> jsval" where
  "js_or a b = (if truthy a then a else b)"

text \<open>A clock reading or \<^verbatim>\<open>null\<close> held in a field: truthiness, its numeric value
  (\<^verbatim>\<open>null\<close> counts as \<open>0\<close> in arithmetic) and its JSON form.\<close>

fun truthy_num :: "int option \<Rightarrow> bool" where
  "truthy_num None = False"
| "truthy_num (Some n) = (n \<noteq> 0)"

fun num_of :: "int option \<Rightarrow> int" where
  "num_of None = 0"
| "num_of (Some n) = n"

fun json_of_num :: "int option \<Rightarrow> jsval" where
  "json_of_num None = JNull"
| "json_of_num (Some n) = JNum n"

fun truthy_str :: "string option \<Rightarrow> bool" where
  "truthy_str None = False"
| "truthy_str (Some s) = (s \<noteq> [])"

fun str_of :: "string option \<Rightarrow> string" where
  "str_of None = []"
| "str_of (Some s) = s"

section \<open>ProblemTimer (utils/problem-timer.js)\<close>

text \<open>
  The timer state of the singleton. \<open>startTime\<close> and \<open>tabHiddenAt\<close> are a number or
  \<^verbatim>\<open>null\<close>; \<open>currentX\<close>, \<open>currentY\<close> are the overlay position that \<open>saveToStorage\<close> writes
  along with the timer fields. \<^verbatim>\<open>Date.now()\<close> and \<^verbatim>\<open>document.hidden\<close> are read from the
  environment, so every operation takes them as arguments.
\<close>

record timer =
  problemUrl :: "string option"
  startTime :: "int option"
  pausedTime :: int
  isTabHidden :: bool
  tabHiddenAt :: "int option"
  currentX :: int
  currentY :: int

definition storageKey :: "string \<Rightarrow> string" where
  "storageKey url = ''problem_data_'' @ url"

text \<open>
  \<open>saveToStorage\<close>, one queued write run to its end: read the record of the problem's
  key, set the two timer fields on it, write it back, then write the overlay position.
  \<^verbatim>\<open>result[storageKey] || {}\<close> gives a fresh object for a missing or falsy value. The
  class body is strict code, so setting a property on a truthy primitive raises a
  TypeError, which the \<^verbatim>\<open>catch\<close> swallows before anything is written. An array takes the
  property, but the store serialises an array by its elements only.
\<close>

definition saveToStorage :: "timer \<Rightarrow> storage \<Rightarrow> storage" where
  "saveToStorage t st =
     (if \<not> truthy_str (problemUrl t) then st
      else
        let key = storageKey (str_of (problemUrl t));
            problemData = js_or (obj_get st key) (JObj []);
            position = JObj [(''x'', JNum (currentX t)), (''y'', JNum (currentY t))]
        in case problemData of
             JObj ob \<Rightarrow>
               let ob1 = AList.update ''problemStartTime'' (json_of_num (startTime t)) ob;
                   ob2 = AList.update ''pausedTime'' (JNum (pausedTime t)) ob1;
                   st1 = AList.update key (JObj ob2) st
               in AList.update ''timer_overlay_position'' position st1
           | JArr xs \<Rightarrow>
               AList.update ''timer_overlay_position'' position
                 (AList.update key (JArr xs) st)
           | _ \<Rightarrow> st)"

text \<open>\<open>reset\<close>: in memory only; it makes no storage call.\<close>

definition reset :: "bool \<Rightarrow> int \<Rightarrow> timer \<Rightarrow> timer" where
  "reset documentHidden now t =
     t\<lparr>startTime := Some now, pausedTime := 0,
       isTabHidden := documentHidden, tabHiddenAt := None\<rparr>"

text \<open>
  The \<^verbatim>\<open>visibilitychange\<close> listener of \<open>setupVisibilityTracking\<close> is an async function. On a
  hide event, and on a show event that finds no hidden interval to close, it runs to its
  end at once. On a show event that closes an interval it adds the interval to
  \<open>pausedTime\<close> and waits for \<open>saveToStorage\<close>; \<^verbatim>\<open>this.tabHiddenAt = null\<close> runs when the save
  has settled, after the handlers of the events that came in between.
  \<open>visibilitychange\<close> is the listener up to the wait, with whether it waits;
  \<open>visibilitychange_resume\<close> is the rest. Without a \<open>problemUrl\<close>, \<open>saveToStorage\<close> returns at
  once and the listener resumes before any other event is handled.
\<close>

definition visibilitychange :: "bool \<Rightarrow> int \<Rightarrow> timer \<Rightarrow> timer \<times> bool" where
  "visibilitychange documentHidden now t =
     (if documentHidden
      then (t\<lparr>isTabHidden := True, tabHiddenAt := Some now\<rparr>, False)
      else
        let t1 = t\<lparr>isTabHidden := False\<rparr>
        in if truthy_num (tabHiddenAt t1) \<and> truthy_num (startTime t1)
           then
             let hiddenDuration = now - num_of (tabHiddenAt t1);
                 t2 = t1\<lparr>pausedTime := pausedTime t1 + hiddenDuration\<rparr>
             in if truthy_str (problemUrl t2) then (t2, True)
                else (t2\<lparr>tabHiddenAt := None\<rparr>, False)
           else (t1\<lparr>tabHiddenAt := None\<rparr>, False))"

definition visibilitychange_resume :: "timer \<Rightarrow> timer" where
  "visibilitychange_resume t = t\<lparr>tabHiddenAt := None\<rparr>"

text \<open>\<open>getElapsedActiveTime\<close> returns the elapsed time and the timer, which the
  negative branch has reset.\<close>

definition getElapsedActiveTime :: "int \<Rightarrow> timer \<Rightarrow> int \<times> timer" where
  "getElapsedActiveTime now t =
     (if \<not> truthy_num (startTime t) then (0, t)
      else
        let elapsed0 = now - num_of (startTime t) - pausedTime t;
            elapsed =
              (if isTabHidden t \<and> truthy_num (tabHiddenAt t)
               then elapsed0 - (now - num_of (tabHiddenAt t))
               else elapsed0)
        in if elapsed < 0
           then (0, t\<lparr>startTime := Some now, pausedTime := 0, tabHiddenAt := None\<rparr>)
           else (elapsed, t))"

text \<open>\<open>updateDisplay\<close> changes the timer only through \<open>getElapsedActiveTime\<close>;
  \<open>shown\<close> says that the overlay and its time element exist.\<close>

definition updateDisplay :: "bool \<Rightarrow> int \<Rightarrow> timer \<Rightarrow> timer" where
  "updateDisplay shown now t =
     (if \<not> shown \<or> \<not> truthy_num (startTime t) then t
      else snd (getElapsedActiveTime now t))"

text \<open>\<open>resetTimer\<close>: the same assignments as \<open>reset\<close>, then the write, then the display
  refresh at the later clock reading \<open>now'\<close>.\<close>

definition resetTimer ::
  "bool \<Rightarrow> int \<Rightarrow> bool \<Rightarrow> int \<Rightarrow> timer \<times> storage \<Rightarrow> timer \<times> storage" where
  "resetTimer documentHidden now shown now' w =
     (case w of (t, st) \<Rightarrow>
        let t1 = t\<lparr>startTime := Some now, pausedTime := 0,
                   isTabHidden := documentHidden, tabHiddenAt := None\<rparr>;
            st1 = saveToStorage t1 st
        in (updateDisplay shown now' t1, st1))"

text \<open>
  What happens to the timer of a page: a visibility event, with \<^verbatim>\<open>document.hidden\<close> and
  the clock, or the save of the listener that has waited longest settles. The state is
  the timer, the store and the number of listeners that wait. The save writes the
  timer's fields as they are when it runs, which the model lets be the moment it
  settles; the timer's own fields do not depend on that moment.
\<close>

datatype timer_event =
    VisibilityChange bool int
  | SaveSettled

fun timer_step :: "timer_event \<Rightarrow> timer \<times> storage \<times> nat \<Rightarrow> timer \<times> storage \<times> nat" where
  "timer_step (VisibilityChange documentHidden now) (t, st, waiting) =
     (case visibilitychange documentHidden now t of
        (t1, waits) \<Rightarrow> (t1, st, if waits then Suc waiting else waiting))"
| "timer_step SaveSettled (t, st, waiting) =
     (case waiting of
        0 \<Rightarrow> (t, st, 0)
      | Suc n \<Rightarrow> (visibilitychange_resume t, saveToStorage t st, n))"

fun run_visibility ::
  "timer_event list \<Rightarrow> timer \<times> storage \<times> nat \<Rightarrow> timer \<times> storage \<times> nat" where
  "run_visibility [] w = w"
| "run_visibility (ev # evs) w = run_visibility evs (timer_step ev w)"

text \<open>The elapsed active time as the data model gives it:
  \<^verbatim>\<open>now - startTime - pausedTime - (isHidden ? now - hiddenSince : 0)\<close>.\<close>

definition elapsedActive :: "int \<Rightarrow> timer \<Rightarrow> int" where
  "elapsedActive now t =
     now - num_of (startTime t) - pausedTime t
       - (if isTabHidden t then now - num_of (tabHiddenAt t) else 0)"

text \<open>A hidden tab has the start of its hidden interval on record.\<close>

definition hidden_tracked :: "timer \<Rightarrow> bool" where
  "hidden_tracked t = (isTabHidden t \<longrightarrow> truthy_num (tabHiddenAt t))"

text \<open>The timer fields of the problem's stored record hold the timer's state.\<close>

definition persisted :: "timer \<Rightarrow> storage \<Rightarrow> bool" where
  "persisted t st =
     (let r = obj_get st (storageKey (str_of (problemUrl t)))
      in val_get r ''problemStartTime'' = json_of_num (startTime t) \<and>
         val_get r ''pausedTime'' = JNum (pausedTime t))"

text \<open>The value stored under a key is an object, or missing or falsy, so that
  \<open>saveToStorage\<close> has an object to set the timer fields on.\<close>

definition record_writable :: "storage \<Rightarrow> string \<Rightarrow> bool" where
  "record_writable st key =
     (case js_or (obj_get st key) (JObj []) of JObj ob \<Rightarrow> True | _ \<Rightarrow> False)"

section \<open>Attempt tracking (content-scripts/takeuforward.js)\<close>

subsection \<open>Data\<close>

text \<open>A run attempt as the \<^verbatim>\<open>CODE_RUN\<close> branch builds it; \<open>successful\<close> is \<^verbatim>\<open>null\<close> until
  the matching \<^verbatim>\<open>RUN_RESPONSE\<close> arrives.\<close>

record attempt =
  att_code :: string
  att_language :: string
  att_timestamp :: string
  att_type :: string
  runNumber :: nat
  successful :: "bool option"

text \<open>The payload of \<^verbatim>\<open>CODE_SUBMIT\<close> and \<^verbatim>\<open>CODE_RUN\<close>; a field may be missing.\<close>

record code_payload =
  pl_language :: "string option"
  usercode :: "string option"
  problem_id :: "string option"

text \<open>The payload of \<^verbatim>\<open>RUN_RESPONSE\<close>.\<close>

record run_result =
  run_success :: bool
  run_status :: string

text \<open>The payload of \<^verbatim>\<open>SUBMISSION_RESPONSE\<close>.\<close>

record submission =
  sub_success :: bool
  sub_status :: string
  totalTestCases :: jsval
  passedTestCases :: jsval
  averageTime :: jsval
  averageMemory :: jsval

record problemInfo =
  title :: string
  description :: string
  difficulty :: int
  url :: string
  language :: string
  code :: string
  slug :: string
  topics :: "string list"
  stats :: "submission option"

text \<open>
  The state of the content script: the module variables (upper case) and the fields of
  the \<open>TakeUforwardExtractor\<close> instance. The counters start at \<open>0\<close> and are only
  incremented or set back to \<open>0\<close>.
\<close>

record extractor =
  QUES :: string
  DESCRIPTION :: string
  DIFFICULTY :: string
  PROBLEM_SLUG :: string
  SELECTED_LANGUAGE :: string
  PUBLIC_CODE :: string
  TRIES :: nat
  currentProblem :: "problemInfo option"
  attempts :: "attempt list"
  runCounter :: nat
  incorrectRunCounter :: nat
  hasAnalyzedMistakes :: bool
  shouldAnalyzeWithGemini :: bool
  aiAnalysis :: "string option"
  aiTags :: "string list"

text \<open>The state a new instance starts from on a freshly loaded page.\<close>

definition new_extractor :: extractor where
  "new_extractor =
     \<lparr>QUES = [], DESCRIPTION = [], DIFFICULTY = [], PROBLEM_SLUG = [],
      SELECTED_LANGUAGE = [], PUBLIC_CODE = [], TRIES = 0, currentProblem = None,
      attempts = [], runCounter = 0, incorrectRunCounter = 0,
      hasAnalyzedMistakes = False, shouldAnalyzeWithGemini = False,
      aiAnalysis = None, aiTags = []\<rparr>"

subsection \<open>Run events\<close>

definition handleThreeIncorrectRuns :: "extractor \<Rightarrow> extractor" where
  "handleThreeIncorrectRuns e = e\<lparr>hasAnalyzedMistakes := True, shouldAnalyzeWithGemini := True\<rparr>"

text \<open>\<^verbatim>\<open>CODE_RUN\<close>: \<open>stamp\<close> is \<^verbatim>\<open>new Date().toISOString()\<close>; a missing payload is \<^verbatim>\<open>{}\<close>.\<close>

definition on_CODE_RUN :: "code_payload option \<Rightarrow> string \<Rightarrow> extractor \<Rightarrow> extractor" where
  "on_CODE_RUN payload stamp e =
     (let e1 = e\<lparr>runCounter := runCounter e + 1\<rparr>;
          runCode = (case payload of None \<Rightarrow> None | Some p \<Rightarrow> usercode p);
          runLang = (case payload of None \<Rightarrow> None | Some p \<Rightarrow> pl_language p);
          c = (if truthy_str runCode then str_of runCode else PUBLIC_CODE e1);
          l = (if truthy_str runLang then str_of runLang else SELECTED_LANGUAGE e1)
      in if c \<noteq> [] \<and> length c > 10
         then e1\<lparr>attempts := attempts e1 @
                  [\<lparr>att_code = c, att_language = l, att_timestamp = stamp,
                    att_type = ''run'', runNumber = runCounter e1, successful = None\<rparr>]\<rparr>
         else e1)"

text \<open>\<^verbatim>\<open>this.attempts.filter(a => a.type === 'run').pop()\<close>: the position of the last
  attempt of type \<^verbatim>\<open>run\<close>, if there is one. The listener then writes through that
  reference, that is, into the list.\<close>

fun last_run_index :: "attempt list \<Rightarrow> nat option" where
  "last_run_index [] = None"
| "last_run_index (a # as) =
     (case last_run_index as of
        Some i \<Rightarrow> Some (Suc i)
      | None \<Rightarrow> if att_type a = ''run'' then Some 0 else None)"

definition on_RUN_RESPONSE :: "run_result \<Rightarrow> extractor \<Rightarrow> extractor" where
  "on_RUN_RESPONSE runResult e =
     (case last_run_index (attempts e) of
        None \<Rightarrow> e
      | Some i \<Rightarrow>
          if successful (attempts e ! i) = None
          then
            if run_success runResult \<or> run_status runResult = ''Accepted''
            then e\<lparr>attempts := (attempts e)[i := (attempts e ! i)\<lparr>successful := Some True\<rparr>]\<rparr>
            else
              let e1 = e\<lparr>attempts := (attempts e)[i := (attempts e ! i)\<lparr>successful := Some False\<rparr>],
                         incorrectRunCounter := incorrectRunCounter e + 1\<rparr>
              in if incorrectRunCounter e1 \<ge> 2 \<and> \<not> hasAnalyzedMistakes e1
                 then handleThreeIncorrectRuns e1
                 else e1
          else e)"

text \<open>The branch of \<^verbatim>\<open>SUBMISSION_RESPONSE\<close> for a submission that was not successful.\<close>

definition on_failed_submission :: "extractor \<Rightarrow> extractor" where
  "on_failed_submission e =
     (let e1 = e\<lparr>incorrectRunCounter := incorrectRunCounter e + 1\<rparr>
      in if incorrectRunCounter e1 \<ge> 3 \<and> \<not> hasAnalyzedMistakes e1
         then handleThreeIncorrectRuns e1
         else e1)"

subsection \<open>Extraction of the problem\<close>

text \<open>
  What one run of \<open>fetchQuestionDetails\<close> and of the URL helpers finds on the page: the
  trimmed text of the heading, of the description paragraph and of the difficulty
  element (\<open>None\<close> when the element is missing), \<^verbatim>\<open>window.location.href.split('?')[0]\<close>,
  and the results of \<open>getProblemSlugFromUrl\<close> and \<open>extractTopicsFromUrl\<close>.
\<close>

record page =
  headingText :: "string option"
  paragraphText :: "string option"
  difficultyText :: "string option"
  pageUrl :: string
  urlSlug :: string
  urlTopics :: "string list"

definition fetchQuestionDetails :: "page \<Rightarrow> extractor \<Rightarrow> extractor" where
  "fetchQuestionDetails pg e =
     (let e1 = (case headingText pg of
                  None \<Rightarrow> e
                | Some h \<Rightarrow>
                    (case paragraphText pg of
                       None \<Rightarrow> e
                     | Some d \<Rightarrow> e\<lparr>QUES := h, DESCRIPTION := d\<rparr>))
      in e1\<lparr>DIFFICULTY :=
              (if truthy_str (difficultyText pg) then str_of (difficultyText pg)
               else ''Medium'')\<rparr>)"

text \<open>\<open>toLowerCase\<close> on the ASCII letters and \<open>includes\<close> on strings (here \<open>str_includes\<close>).\<close>

definition toLowerCase :: "string \<Rightarrow> string" where
  "toLowerCase s =
     map (\<lambda>c. if 65 \<le> (of_char c :: nat) \<and> (of_char c :: nat) \<le> 90
              then char_of (of_char c + 32 :: nat) else c) s"

fun str_includes :: "string \<Rightarrow> string \<Rightarrow> bool" where
  "str_includes [] sub = (sub = [])"
| "str_includes (c # cs) sub = (take (length sub) (c # cs) = sub \<or> str_includes cs sub)"

definition normalizeDifficulty :: "string \<Rightarrow> int" where
  "normalizeDifficulty d =
     (let normalized = toLowerCase d
      in if str_includes normalized ''easy'' then 0
         else if str_includes normalized ''medium'' then 1
         else if str_includes normalized ''hard'' then 2
         else 1)"

text \<open>\<^verbatim>\<open>stored || current\<close> for the cached strings; the extension stores strings there.\<close>

definition stored_or :: "jsval \<Rightarrow> string \<Rightarrow> string" where
  "stored_or v cur = (case v of JStr s \<Rightarrow> (if s \<noteq> [] then s else cur) | _ \<Rightarrow> cur)"

text \<open>\<^verbatim>\<open>Date.now() - timestamp < 60000\<close>; the extension stores \<^verbatim>\<open>Date.now()\<close> there, and a
  value that is no number makes the difference \<^verbatim>\<open>NaN\<close> and the comparison false.\<close>

definition within_minute :: "int \<Rightarrow> jsval \<Rightarrow> bool" where
  "within_minute now ts =
     (case ts of JNum n \<Rightarrow> now - n < 60000 | JBool b \<Rightarrow> now - (if b then 1 else 0) < 60000
      | _ \<Rightarrow> False)"

text \<open>The block of \<open>extractProblemInfo\<close> that looks for the stored copy of the submitted
  code when one of the three cached strings is empty.\<close>

definition refill_from_storage :: "int \<Rightarrow> storage \<Rightarrow> extractor \<Rightarrow> extractor" where
  "refill_from_storage now st e1 =
     (if PUBLIC_CODE e1 = [] \<or> SELECTED_LANGUAGE e1 = [] \<or> PROBLEM_SLUG e1 = []
      then
        let d = obj_get st ''tuf_code_data''
        in if truthy d \<and> truthy (val_get d ''timestamp'')
           then
             if within_minute now (val_get d ''timestamp'')
             then e1\<lparr>SELECTED_LANGUAGE :=
                        stored_or (val_get d ''SELECTED_LANGUAGE'') (SELECTED_LANGUAGE e1),
                      PUBLIC_CODE :=
                        stored_or (val_get d ''PUBLIC_CODE'') (PUBLIC_CODE e1),
                      PROBLEM_SLUG :=
                        stored_or (val_get d ''PROBLEM_SLUG'') (PROBLEM_SLUG e1)\<rparr>
             else e1
           else e1
      else e1)"

text \<open>\<open>extractProblemInfo\<close> returns the problem or \<^verbatim>\<open>null\<close>, and the state with the
  module variables it has assigned on the way.\<close>

definition extractProblemInfo ::
  "page \<Rightarrow> int \<Rightarrow> storage \<Rightarrow> extractor \<Rightarrow> problemInfo option \<times> extractor" where
  "extractProblemInfo pg now st e =
     (let e1 = fetchQuestionDetails pg e;
          e2 = refill_from_storage now st e1;
          pinfo =
            \<lparr>title = QUES e2, description = DESCRIPTION e2,
             difficulty = normalizeDifficulty (DIFFICULTY e2), url = pageUrl pg,
             language = SELECTED_LANGUAGE e2, code = PUBLIC_CODE e2,
             slug = (if PROBLEM_SLUG e2 \<noteq> [] then PROBLEM_SLUG e2 else urlSlug pg),
             topics = urlTopics pg, stats = None\<rparr>
      in if title pinfo = [] then (None, e2)
         else if code pinfo = [] then (None, e2)
         else (Some pinfo, e2\<lparr>currentProblem := Some pinfo\<rparr>))"

subsection \<open>The stored problem record\<close>

text \<open>Decimal digits of an array index or a status code.\<close>

definition digit :: "nat \<Rightarrow> char" where
  "digit d = char_of (d + 48)"

fun string_of_nat :: "nat \<Rightarrow> string" where
  "string_of_nat n =
     (if 10 \<le> n then string_of_nat (n div 10) @ [digit (n mod 10)] else [digit n])"

declare string_of_nat.simps [simp del]

text \<open>The own enumerable properties that \<^verbatim>\<open>{...v}\<close> copies.\<close>

definition spread :: "jsval \<Rightarrow> jsobj" where
  "spread v =
     (case v of
        JObj ob \<Rightarrow> ob
      | JArr xs \<Rightarrow> zip (map string_of_nat [0..<length xs]) xs
      | JStr cs \<Rightarrow> zip (map string_of_nat [0..<length cs]) (map (\<lambda>c. JStr [c]) cs)
      | _ \<Rightarrow> [])"

text \<open>\<^verbatim>\<open>a ?? b\<close>.\<close>

definition nullish_or :: "jsval \<Rightarrow> jsval \<Rightarrow> jsval" where
  "nullish_or a b = (case a of JUndefined \<Rightarrow> b | JNull \<Rightarrow> b | _ \<Rightarrow> a)"

text \<open>
  \<open>storeProblemData\<close>, as the store it leaves (its callers drop the returned record).
  \<open>tm\<close> is the timer instance when \<^verbatim>\<open>window.ProblemTimer\<close> exists, \<open>stamp\<close> is
  \<^verbatim>\<open>new Date().toISOString()\<close>. \<open>topics\<close> is an array, hence truthy.
\<close>

definition storeProblemData ::
  "int \<Rightarrow> string \<Rightarrow> timer option \<Rightarrow> problemInfo \<Rightarrow> bool \<Rightarrow> extractor \<Rightarrow> storage \<Rightarrow> storage" where
  "storeProblemData now stamp tm pinfo solved e st =
     (let key = storageKey (url pinfo);
          existingData = js_or (obj_get st key) (JObj []);
          previousSolved =
            js_or (val_get existingData ''solved'')
              (JObj [(''value'', JBool False), (''date'', JNum 0), (''tries'', JNum 0)]);
          solvedData =
            (if truthy (val_get previousSolved ''value'') then previousSolved
             else if solved
             then JObj [(''value'', JBool True), (''date'', JNum now),
                        (''tries'', JNum (if TRIES e \<noteq> 0 then int (TRIES e) else 1))]
             else JObj [(''value'', JBool False), (''date'', JNum 0),
                        (''tries'', JNum (int (TRIES e)))]);
          timerStart = (case tm of None \<Rightarrow> JUndefined | Some t \<Rightarrow> json_of_num (startTime t));
          timerPaused = (case tm of None \<Rightarrow> JUndefined | Some t \<Rightarrow> JNum (pausedTime t));
          problemData =
            fold (\<lambda>(k, v). AList.update k v)
              [(''name'', JStr (title pinfo)),
               (''platform'', JStr ''takeuforward''),
               (''difficulty'', JNum (difficulty pinfo)),
               (''solved'', solvedData),
               (''ignored'', nullish_or (val_get existingData ''ignored'') (JBool False)),
               (''parent_topic'', JArr (map JStr (topics pinfo))),
               (''problem_link'', JStr (url pinfo)),
               (''language'',
                  js_or (JStr (language pinfo))
                    (js_or (val_get existingData ''language'') (JStr ''python''))),
               (''problemStartTime'',
                  js_or timerStart
                    (js_or (val_get existingData ''problemStartTime'') (JNum now))),
               (''pausedTime'',
                  js_or timerPaused (js_or (val_get existingData ''pausedTime'') (JNum 0))),
               (''aiAnalysis'',
                  (if truthy_str (aiAnalysis e) then JStr (str_of (aiAnalysis e)) else JNull)),
               (''aiTags'', JArr (map JStr (aiTags e))),
               (''shouldAnalyzeWithGemini'', JBool (shouldAnalyzeWithGemini e)),
               (''runCounter'', JNum (int (runCounter e))),
               (''incorrectRunCounter'', JNum (int (incorrectRunCounter e))),
               (''timestamp'', JStr stamp)]
              (spread existingData)
      in AList.update key (JObj problemData) st)"

text \<open>A sequence of such writes, each with its own arguments.\<close>

fun store_writes ::
  "(int \<times> string \<times> timer option \<times> problemInfo \<times> bool \<times> extractor) list \<Rightarrow> storage \<Rightarrow> storage" where
  "store_writes [] st = st"
| "store_writes ((now, stamp, tm, pinfo, solved, e) # ws) st =
     store_writes ws (storeProblemData now stamp tm pinfo solved e st)"

section \<open>GeminiAPI (mistake analysis)\<close>

text \<open>The instance holds the API key, \<^verbatim>\<open>null\<close> until \<open>initialize\<close> has read it.\<close>

record gemini =
  apiKey :: jsval

text \<open>
  What \<^verbatim>\<open>chrome.storage.sync.get\<close> does when \<open>initialize\<close> calls it: it throws, with a
  message (the extension context is gone, say), or it calls back with the stored items.
\<close>

datatype sync_get =
    SyncThrows string
  | SyncGives storage

text \<open>
  \<open>initialize\<close> wraps the read in a promise and has no \<^verbatim>\<open>catch\<close>: a read that throws
  rejects the promise (\<open>Inl\<close> is the error's message); otherwise the callback sets the
  key and resolves to whether there is one.
\<close>

definition initialize :: "sync_get \<Rightarrow> gemini \<Rightarrow> string + bool \<times> gemini" where
  "initialize sync g =
     (case sync of
        SyncThrows m \<Rightarrow> Inl m
      | SyncGives data \<Rightarrow>
          let k = js_or (obj_get data ''gemini_api_key'') JNull
          in Inr (truthy k, g\<lparr>apiKey := k\<rparr>))"



text \<open>The object \<open>analyzeMistakes\<close> resolves to: \<^verbatim>\<open>{success: true, analysis, tags}\<close> or
  \<^verbatim>\<open>{success: false, error}\<close>.\<close>

datatype gemini_result =
    Analysis string "string list"
  | Failure string


text \<open>
  What the network does with the request. \<open>fetch\<close> rejects with a message or resolves
  to a response; reading the body as text or as JSON can reject in turn (\<open>Inl\<close> is the
  message of the error raised).
\<close>

record response =
  resp_ok :: bool
  resp_status :: nat
  resp_text :: "string + string"
  resp_json :: "string + jsval"

datatype fetch_outcome =
    FetchRejected string
  | FetchResolved response

text \<open>The collaborators' calls a handler makes, in order.\<close>

datatype call =
    GeminiRequest
  | BackendPush string
  | GitHubPush
  | ToastSuccess string
  | ToastError string

text \<open>The message of the TypeError raised by a property read on \<^verbatim>\<open>null\<close> or
  \<^verbatim>\<open>undefined\<close>, or by a call of something that is no function; its wording is the
  engine's.\<close>

definition typeError :: string where
  "typeError = ''TypeError''"

text \<open>\<^verbatim>\<open>v.k\<close> and \<^verbatim>\<open>v[0]\<close> on any value: \<open>Inl\<close> when the read raises.\<close>

definition member :: "jsval \<Rightarrow> string \<Rightarrow> string + jsval" where
  "member v k =
     (case v of JUndefined \<Rightarrow> Inl typeError | JNull \<Rightarrow> Inl typeError | _ \<Rightarrow> Inr (val_get v k))"

definition first_elem :: "jsval \<Rightarrow> string + jsval" where
  "first_elem v =
     (case v of
        JUndefined \<Rightarrow> Inl typeError
      | JNull \<Rightarrow> Inl typeError
      | JArr xs \<Rightarrow> Inr (case xs of [] \<Rightarrow> JUndefined | x # _ \<Rightarrow> x)
      | JStr cs \<Rightarrow> Inr (case cs of [] \<Rightarrow> JUndefined | c # _ \<Rightarrow> JStr [c])
      | JObj ob \<Rightarrow> Inr (obj_get ob ''0'')
      | _ \<Rightarrow> Inr JUndefined)"

text \<open>Sequencing of steps that may raise: the first error ends the \<^verbatim>\<open>try\<close> block.\<close>

definition and_then :: "string + 'a \<Rightarrow> ('a \<Rightarrow> string + 'b) \<Rightarrow> string + 'b" where
  "and_then r f = (case r of Inl m \<Rightarrow> Inl m | Inr x \<Rightarrow> f x)"

text \<open>
  \<open>buildAnalysisPrompt\<close> destructures \<open>problemInfo\<close>, which raises on \<^verbatim>\<open>null\<close>. The prompt
  itself only travels to the network, whose answer is given, so its text is left out.
\<close>

definition buildAnalysisPrompt :: "attempt list \<Rightarrow> problemInfo option \<Rightarrow> string + unit" where
  "buildAnalysisPrompt atts pinfo = (case pinfo of None \<Rightarrow> Inl typeError | Some p \<Rightarrow> Inr ())"

text \<open>
  The \<^verbatim>\<open>try\<close> block of \<open>analyzeMistakes\<close>: the result it returns, or the message of the
  error it raises, with the requests made. \<open>parseAnalysisResponse\<close> works on the answer's
  text with regular expressions and is total on strings; it is the parameter \<open>parse\<close>,
  giving the summary and the tags. On anything but a string its \<^verbatim>\<open>match\<close> call raises.
\<close>

definition analysis_of_response ::
  "(string \<Rightarrow> string \<times> string list) \<Rightarrow> response \<Rightarrow> string + gemini_result" where
  "analysis_of_response parse resp =
     (if \<not> resp_ok resp
      then and_then (resp_text resp) (\<lambda>errorText.
             Inl (''Gemini API responded with '' @ string_of_nat (resp_status resp)
                    @ '': '' @ errorText))
      else
        and_then (resp_json resp) (\<lambda>data.
        and_then (member data ''candidates'') (\<lambda>candidates.
          if \<not> truthy candidates then Inl ''Invalid response format from Gemini API''
          else
            and_then (first_elem candidates) (\<lambda>candidate.
              if \<not> truthy candidate then Inl ''Invalid response format from Gemini API''
              else if \<not> truthy (val_get candidate ''content'')
              then Inl ''Invalid response format from Gemini API''
              else
                and_then (first_elem (val_get (val_get candidate ''content'') ''parts'')) (\<lambda>part.
                and_then (member part ''text'') (\<lambda>rawAnalysis.
                  case rawAnalysis of
                    JStr raw \<Rightarrow> Inr (Analysis (fst (parse raw)) (snd (parse raw)))
                  | _ \<Rightarrow> Inl typeError))))))"

definition analysis_try ::
  "fetch_outcome \<Rightarrow> (string \<Rightarrow> string \<times> string list) \<Rightarrow> attempt list \<Rightarrow> problemInfo option
     \<Rightarrow> (string + gemini_result) \<times> call list" where
  "analysis_try net parse atts pinfo =
     (case buildAnalysisPrompt atts pinfo of
        Inl m \<Rightarrow> (Inl m, [])
      | Inr u \<Rightarrow>
          (case net of
             FetchRejected m \<Rightarrow> (Inl m, [GeminiRequest])
           | FetchResolved resp \<Rightarrow> (analysis_of_response parse resp, [GeminiRequest])))"

text \<open>
  \<open>analyzeMistakes\<close>: the two guards, then the \<^verbatim>\<open>try\<close> block, whose \<^verbatim>\<open>catch\<close> turns an
  error into \<^verbatim>\<open>{success: false, error: error.message}\<close>. The guards stand before the
  \<^verbatim>\<open>try\<close>, so a rejection of \<^verbatim>\<open>await this.initialize()\<close> rejects the call (\<open>Inl\<close>). \<open>atts\<close>
  is \<open>None\<close> for a \<^verbatim>\<open>null\<close> argument. The result comes with the instance and the requests
  made.
\<close>

definition analyzeMistakes ::
  "sync_get \<Rightarrow> fetch_outcome \<Rightarrow> (string \<Rightarrow> string \<times> string list) \<Rightarrow> gemini
     \<Rightarrow> attempt list option \<Rightarrow> problemInfo option
     \<Rightarrow> string + gemini_result \<times> gemini \<times> call list" where
  "analyzeMistakes sync net parse g atts pinfo =
     (case (if \<not> truthy (apiKey g) then initialize sync g else Inr (True, g)) of
        Inl m \<Rightarrow> Inl m
      | Inr (initialized, g1) \<Rightarrow>
          if \<not> initialized then Inr (Failure ''Gemini API key not configured'', g1, [])
          else
            (case atts of
               None \<Rightarrow> Inr (Failure ''No attempts to analyze'', g1, [])
             | Some xs \<Rightarrow>
                 if length xs = 0 then Inr (Failure ''No attempts to analyze'', g1, [])
                 else
                   (case analysis_try net parse xs pinfo of
                      (Inl m, cs) \<Rightarrow> Inr (Failure m, g1, cs)
                    | (Inr r, cs) \<Rightarrow> Inr (r, g1, cs))))"

section \<open>The pipeline of a successful submission\<close>

text \<open>What the backend and the code host answer: the call rejects, or resolves to a
  result with its \<open>success\<close> flag (for the backend also \<^verbatim>\<open>data?.message\<close> and \<open>error\<close>).\<close>

datatype backend_outcome =
    BackendThrows string
  | BackendResult bool "string option" string

datatype github_outcome =
    GitHubThrows
  | GitHubResult bool

text \<open>The surroundings of one run of \<open>handleSuccessfulSubmission\<close>: the page, the clock,
  the collaborators' answers, and whether \<^verbatim>\<open>window.LeetFeedbackToast\<close> exists.\<close>

record pipeline_env =
  env_page :: page
  env_now :: int
  env_stamp :: string
  env_fetch :: fetch_outcome
  env_parse :: "string \<Rightarrow> string \<times> string list"
  env_backend :: backend_outcome
  env_github :: github_outcome
  env_toast :: bool

text \<open>The content script's world: its state, the timer instance if the timer utility is
  loaded, the two stores, and the collaborators' calls made so far.\<close>

record world =
  wext :: extractor
  wtimer :: "timer option"
  wlocal :: storage
  wsync :: storage
  wcalls :: "call list"

text \<open>\<^verbatim>\<open>githubSettings.github_push_enabled !== false\<close>.\<close>

definition github_push_enabled :: "storage \<Rightarrow> bool" where
  "github_push_enabled sync = (obj_get sync ''github_push_enabled'' \<noteq> JBool False)"

text \<open>The block of assignments under \<^verbatim>\<open>// Reset state\<close>, the same in both branches.\<close>

definition clear_transient :: "extractor \<Rightarrow> extractor" where
  "clear_transient e =
     e\<lparr>TRIES := 0, PUBLIC_CODE := [], SELECTED_LANGUAGE := [], PROBLEM_SLUG := [],
       attempts := [], runCounter := 0, incorrectRunCounter := 0,
       hasAnalyzedMistakes := False, shouldAnalyzeWithGemini := False,
       aiAnalysis := None, aiTags := []\<rparr>"

text \<open>Step 0, the analysis, when the latch is set and a key is configured. The store
  answers the read of the key; the stage has its own \<^verbatim>\<open>try\<close>, whose \<^verbatim>\<open>catch\<close> lets the
  pipeline go on after a rejection.\<close>

definition analysis_stage :: "pipeline_env \<Rightarrow> problemInfo \<Rightarrow> world \<Rightarrow> world" where
  "analysis_stage env pinfo w =
     (if shouldAnalyzeWithGemini (wext w)
      then
        (case initialize (SyncGives (wsync w)) \<lparr>apiKey = JNull\<rparr> of
           Inl m \<Rightarrow> w
         | Inr (geminiConfigured, g) \<Rightarrow>
             if geminiConfigured
             then
               let allAttempts =
                     filter (\<lambda>a. att_code a \<noteq> [] \<and> length (att_code a) > 10) (attempts (wext w))
               in (case analyzeMistakes (SyncGives (wsync w)) (env_fetch env) (env_parse env) g
                          (Some allAttempts) (Some pinfo) of
                     Inl m \<Rightarrow> w
                   | Inr (Analysis a ts, g1, cs) \<Rightarrow>
                       let e1 = (wext w)\<lparr>aiAnalysis := Some a, aiTags := ts\<rparr>
                       in w\<lparr>wext := e1,
                            wlocal := storeProblemData (env_now env) (env_stamp env) (wtimer w)
                                        pinfo True e1 (wlocal w),
                            wcalls := wcalls w @ cs\<rparr>
                   | Inr (Failure m, g1, cs) \<Rightarrow> w\<lparr>wcalls := wcalls w @ cs\<rparr>)
             else w)
      else w)"

text \<open>Step 1, the push to the backend, in its own \<^verbatim>\<open>try\<close>: the call (or the creation of
  the client before it) rejects, or it resolves to a result; either way the stage ends
  in a toast at most.\<close>

definition backend_stage :: "pipeline_env \<Rightarrow> problemInfo \<Rightarrow> world \<Rightarrow> world" where
  "backend_stage env pinfo w =
     (let toast =
            (case env_backend env of
               BackendResult True msg err \<Rightarrow>
                 ToastSuccess (if truthy_str msg then str_of msg
                               else ''Solution synced to Traverse!'')
             | BackendResult False msg err \<Rightarrow> ToastError (''Sync failed: '' @ err)
             | BackendThrows m \<Rightarrow> ToastError (''Sync error: '' @ m))
      in w\<lparr>wcalls := wcalls w @ [BackendPush (url pinfo)]
                        @ (if env_toast env then [toast] else [])\<rparr>)"

text \<open>Step 2, the push to the code host and the reset. A push that rejects leaves
  through the outer \<^verbatim>\<open>catch\<close>.\<close>

definition github_stage :: "pipeline_env \<Rightarrow> problemInfo \<Rightarrow> world \<Rightarrow> world" where
  "github_stage env pinfo w =
     (if github_push_enabled (wsync w)
      then
        (case env_github env of
           GitHubResult True \<Rightarrow>
             w\<lparr>wext := clear_transient (wext w),
               wlocal := AList.delete ''tuf_code_data'' (wlocal w),
               wcalls := wcalls w @ [GitHubPush]\<rparr>
         | GitHubResult False \<Rightarrow> w\<lparr>wcalls := wcalls w @ [GitHubPush]\<rparr>
         | GitHubThrows \<Rightarrow> w\<lparr>wcalls := wcalls w @ [GitHubPush]\<rparr>)
      else w\<lparr>wext := clear_transient (wext w)\<rparr>)"

text \<open>\<open>handleSuccessfulSubmission\<close>, after its wait of two seconds: extraction, the two
  early returns, the write of the solved record, then the three stages in order. The
  statistics are assigned to the object that \<open>currentProblem\<close> refers to as well.\<close>

definition handleSuccessfulSubmission :: "pipeline_env \<Rightarrow> submission \<Rightarrow> world \<Rightarrow> world" where
  "handleSuccessfulSubmission env submissionData w =
     (case extractProblemInfo (env_page env) (env_now env) (wlocal w) (wext w) of
        (None, e1) \<Rightarrow> w\<lparr>wext := e1\<rparr>
      | (Some p0, e1) \<Rightarrow>
          if code p0 = [] \<or> length (code p0) < 10 then w\<lparr>wext := e1\<rparr>
          else
            let pinfo = p0\<lparr>stats := Some submissionData\<rparr>;
                e2 = e1\<lparr>currentProblem := Some pinfo\<rparr>;
                w1 = w\<lparr>wext := e2,
                       wlocal := storeProblemData (env_now env) (env_stamp env) (wtimer w)
                                   pinfo True e2 (wlocal w)\<rparr>
            in github_stage env pinfo (backend_stage env pinfo (analysis_stage env pinfo w1)))"

subsection \<open>The message listener\<close>

datatype event =
    CODE_SUBMIT code_payload int
  | CODE_RUN "code_payload option" string
  | RUN_RESPONSE run_result
  | SUBMISSION_RESPONSE submission pipeline_env

text \<open>\<^verbatim>\<open>CODE_SUBMIT\<close>: cache the submitted code, store it, count the try.\<close>

definition on_CODE_SUBMIT :: "code_payload \<Rightarrow> int \<Rightarrow> world \<Rightarrow> world" where
  "on_CODE_SUBMIT submitData now w =
     (let l = str_of (pl_language submitData);
          c = str_of (usercode submitData);
          s = str_of (problem_id submitData);
          e1 = (wext w)\<lparr>SELECTED_LANGUAGE := l, PUBLIC_CODE := c, PROBLEM_SLUG := s\<rparr>;
          st1 = AList.update ''tuf_code_data''
                  (JObj [(''SELECTED_LANGUAGE'', JStr l), (''PUBLIC_CODE'', JStr c),
                         (''PROBLEM_SLUG'', JStr s), (''timestamp'', JNum now)])
                  (wlocal w)
      in w\<lparr>wext := e1\<lparr>TRIES := TRIES e1 + 1\<rparr>, wlocal := st1\<rparr>)"

text \<open>One message, handled to its end.\<close>

fun step :: "event \<Rightarrow> world \<Rightarrow> world" where
  "step (CODE_SUBMIT submitData now) w = on_CODE_SUBMIT submitData now w"
| "step (CODE_RUN payload stamp) w = w\<lparr>wext := on_CODE_RUN payload stamp (wext w)\<rparr>"
| "step (RUN_RESPONSE runResult) w = w\<lparr>wext := on_RUN_RESPONSE runResult (wext w)\<rparr>"
| "step (SUBMISSION_RESPONSE submissionData env) w =
     (if sub_success submissionData then handleSuccessfulSubmission env submissionData w
      else w\<lparr>wext := on_failed_submission (wext w)\<rparr>)"

fun run :: "event list \<Rightarrow> world \<Rightarrow> world" where
  "run [] w = w"
| "run (ev # evs) w = run evs (step ev w)"

text \<open>The number of messages of a run at which the latch goes from false to true.\<close>

fun latch_rises :: "event list \<Rightarrow> world \<Rightarrow> nat" where
  "latch_rises [] w = 0"
| "latch_rises (ev # evs) w =
     (if \<not> hasAnalyzedMistakes (wext w) \<and> hasAnalyzedMistakes (wext (step ev w)) then 1 else 0)
       + latch_rises evs (step ev w)"

text \<open>The same count for \<open>shouldAnalyzeWithGemini\<close>, the flag that the pipeline reads.\<close>

fun flag_rises :: "event list \<Rightarrow> world \<Rightarrow> nat" where
  "flag_rises [] w = 0"
| "flag_rises (ev # evs) w =
     (if \<not> shouldAnalyzeWithGemini (wext w) \<and> shouldAnalyzeWithGemini (wext (step ev w))
      then 1 else 0)
       + flag_rises evs (step ev w)"

text \<open>The extraction of a pipeline run yields a title and code of ten characters or
  more, so that the run goes on to the persist stage.\<close>

definition passes_extraction :: "pipeline_env \<Rightarrow> world \<Rightarrow> bool" where
  "passes_extraction env w =
     (case extractProblemInfo (env_page env) (env_now env) (wlocal w) (wext w) of
        (None, e1) \<Rightarrow> False
      | (Some p0, e1) \<Rightarrow> 10 \<le> length (code p0))"

text \<open>The message is a successful submission whose pipeline reaches the reset block.\<close>

fun pipeline_resets :: "event \<Rightarrow> world \<Rightarrow> bool" where
  "pipeline_resets (SUBMISSION_RESPONSE submissionData env) w =
     (sub_success submissionData \<and> passes_extraction env w \<and>
      (github_push_enabled (wsync w) \<longrightarrow> env_github env = GitHubResult True))"
| "pipeline_resets ev w = False"

fun no_reset :: "event list \<Rightarrow> world \<Rightarrow> bool" where
  "no_reset [] w = True"
| "no_reset (ev # evs) w = (\<not> pipeline_resets ev w \<and> no_reset evs (step ev w))"


subsection \<open>Counting failures\<close>

text \<open>The attempts of a list whose outcome is fail.\<close>

definition failed_attempts :: "attempt list \<Rightarrow> nat" where
  "failed_attempts xs = length (filter (\<lambda>a. successful a = Some False) xs)"

fun successful_submission :: "event \<Rightarrow> bool" where
  "successful_submission (SUBMISSION_RESPONSE submissionData env) = sub_success submissionData"
| "successful_submission ev = False"

fun failed_submission :: "event \<Rightarrow> bool" where
  "failed_submission (SUBMISSION_RESPONSE submissionData env) = (\<not> sub_success submissionData)"
| "failed_submission ev = False"

definition failed_submissions :: "event list \<Rightarrow> nat" where
  "failed_submissions evs = length (filter failed_submission evs)"

text \<open>A run result that is a failure: neither \<^verbatim>\<open>success === true\<close> nor status
  \<^verbatim>\<open>Accepted\<close>.\<close>

definition run_failed :: "run_result \<Rightarrow> bool" where
  "run_failed r = (\<not> run_success r \<and> run_status r \<noteq> ''Accepted'')"

subsection \<open>The tracker as the specification words it\<close>

text \<open>
  The specification's AttemptTracker keeps two counters: a failed run increments
  \<open>runFailCount\<close> and latches analysis at the run-failure threshold 2, a failed submit
  increments a separate \<open>submitFailCount\<close> and latches at the submit-failure threshold 3.
  This is that wording, to compare the listener with.
\<close>

record spec_tracker =
  runFailCount :: nat
  submitFailCount :: nat
  analysisLatched :: bool

definition spec_new :: spec_tracker where
  "spec_new = \<lparr>runFailCount = 0, submitFailCount = 0, analysisLatched = False\<rparr>"

definition spec_run_failure :: "spec_tracker \<Rightarrow> spec_tracker" where
  "spec_run_failure s =
     (let s1 = s\<lparr>runFailCount := runFailCount s + 1\<rparr>
      in if runFailCount s1 \<ge> 2 \<and> \<not> analysisLatched s1 then s1\<lparr>analysisLatched := True\<rparr> else s1)"

definition spec_submit_failure :: "spec_tracker \<Rightarrow> spec_tracker" where
  "spec_submit_failure s =
     (let s1 = s\<lparr>submitFailCount := submitFailCount s + 1\<rparr>
      in if submitFailCount s1 \<ge> 3 \<and> \<not> analysisLatched s1 then s1\<lparr>analysisLatched := True\<rparr> else s1)"

section \<open>Concrete states\<close>

text \<open>A timer started at clock reading 1000 on a visible tab, and a store whose record
  for the timer's key holds that state next to other fields.\<close>

definition timer_example :: timer where
  "timer_example =
     \<lparr>problemUrl = Some ''two-sum'', startTime = Some 1000, pausedTime = 0,
      isTabHidden = False, tabHiddenAt = None, currentX = 0, currentY = 0\<rparr>"

definition store_example :: storage where
  "store_example =
     [(''problem_data_two-sum'',
       JObj [(''name'', JStr ''Two Sum''),
             (''solved'', JObj [(''value'', JBool True), (''date'', JNum 500), (''tries'', JNum 2)]),
             (''problemStartTime'', JNum 1000),
             (''pausedTime'', JNum 0)])]"

text \<open>A problem, a freshly loaded content script with empty stores, and messages: a run
  of code long enough to be kept, a failed run result, a failed submission.\<close>

definition problem_example :: problemInfo where
  "problem_example =
     \<lparr>title = ''Two Sum'', description = ''Find two numbers'', difficulty = 0,
      url = ''two-sum'', language = ''cpp'', code = ''int main() { return 0; }'',
      slug = ''two-sum'', topics = [''Arrays''], stats = None\<rparr>"

definition world_example :: world where
  "world_example =
     \<lparr>wext = new_extractor, wtimer = None, wlocal = [], wsync = [], wcalls = []\<rparr>"

definition payload_example :: code_payload where
  "payload_example =
     \<lparr>pl_language = Some ''cpp'', usercode = Some ''int main() { return 0; }'',
      problem_id = Some ''two-sum''\<rparr>"

definition run_example :: event where
  "run_example = CODE_RUN (Some payload_example) ''2026-01-01T00:00:00.000Z''"

definition run_fails_example :: event where
  "run_fails_example = RUN_RESPONSE \<lparr>run_success = False, run_status = ''Wrong Answer''\<rparr>"

definition submission_example :: "bool \<Rightarrow> submission" where
  "submission_example accepted =
     \<lparr>sub_success = accepted,
      sub_status = (if accepted then ''Accepted'' else ''Wrong Answer''),
      totalTestCases = JNum 10, passedTestCases = JNum (if accepted then 10 else 4),
      averageTime = JStr ''0.01s'', averageMemory = JNum 1024\<rparr>"

text \<open>The surroundings of a pipeline run: the page shows the title when \<open>titled\<close>, the
  backend fails, the code host answers \<open>gh\<close>.\<close>

definition env_example :: "bool \<Rightarrow> github_outcome \<Rightarrow> pipeline_env" where
  "env_example titled gh =
     \<lparr>env_page =
        \<lparr>headingText = (if titled then Some ''Two Sum'' else None),
         paragraphText = Some ''Find two numbers'', difficultyText = Some ''Easy'',
         pageUrl = ''https://takeuforward.org/plus/dsa/problems/two-sum'',
         urlSlug = ''two-sum'', urlTopics = [''Arrays'']\<rparr>,
      env_now = 2000, env_stamp = ''2026-01-01T00:00:02.000Z'',
      env_fetch = FetchRejected ''Failed to fetch'',
      env_parse = (\<lambda>raw. (raw, [])),
      env_backend = BackendResult False None ''Not signed in'',
      env_github = gh, env_toast = True\<rparr>"

text \<open>Messages of the example: a failed and an accepted submission, and the submit that
  comes before them.\<close>

definition submit_fails_example :: event where
  "submit_fails_example =
     SUBMISSION_RESPONSE (submission_example False) (env_example True GitHubThrows)"

definition submit_example :: event where
  "submit_example = CODE_SUBMIT payload_example 1500"

definition accepted_example :: event where
  "accepted_example =
     SUBMISSION_RESPONSE (submission_example True) (env_example True (GitHubResult True))"

text \<open>A run of code too short to be kept as an attempt.\<close>

definition short_payload_example :: code_payload where
  "short_payload_example =
     \<lparr>pl_language = Some ''python'', usercode = Some ''pass'', problem_id = Some ''two-sum''\<rparr>"

definition short_run_example :: event where
  "short_run_example = CODE_RUN (Some short_payload_example) ''2026-01-01T00:00:00.000Z''"

text \<open>A content script that holds submitted code, with the code-host push switched off;
  and one whose memory is empty while the store still has the last submission.\<close>

definition world_push_off :: world where
  "world_push_off =
     world_example
       \<lparr>wext := new_extractor\<lparr>PUBLIC_CODE := ''int main() { return 0; }'', TRIES := 1\<rparr>,
        wsync := [(''github_push_enabled'', JBool False)]\<rparr>"

definition world_stored_code :: world where
  "world_stored_code =
     world_example
       \<lparr>wlocal :=
          [(''tuf_code_data'',
            JObj [(''SELECTED_LANGUAGE'', JStr ''cpp''),
                  (''PUBLIC_CODE'', JStr ''int main() { return 0; }''),
                  (''PROBLEM_SLUG'', JStr ''two-sum''),
                  (''timestamp'', JNum 1500)])]\<rparr>"




section \<open>Properties of the timer\<close>

lemma getElapsedActiveTime_nonneg: "0 \<le> fst (getElapsedActiveTime now t)"
  by (simp add: getElapsedActiveTime_def Let_def)

lemma getElapsedActiveTime_tracked:
  assumes "truthy_num (startTime t)" and "hidden_tracked t"
  shows "getElapsedActiveTime now t =
           (if elapsedActive now t < 0
            then (0, t\<lparr>startTime := Some now, pausedTime := 0, tabHiddenAt := None\<rparr>)
            else (elapsedActive now t, t))"
  using assms
  by (auto simp add: getElapsedActiveTime_def elapsedActive_def hidden_tracked_def Let_def)

lemma getElapsedActiveTime_untracked:
  assumes "truthy_num (startTime t)" and "\<not> hidden_tracked t"
  shows "getElapsedActiveTime now t =
           (if now - num_of (startTime t) - pausedTime t < 0
            then (0, t\<lparr>startTime := Some now, pausedTime := 0, tabHiddenAt := None\<rparr>)
            else (now - num_of (startTime t) - pausedTime t, t))"
  using assms
  by (auto simp add: getElapsedActiveTime_def hidden_tracked_def Let_def)

lemma timer_step_startTime:
  "startTime (fst (timer_step ev w)) = startTime (fst w)"
proof (cases w)
  case (fields t st waiting)
  then show ?thesis
    by (cases ev)
      (simp_all add: visibilitychange_def visibilitychange_resume_def Let_def split: nat.splits)
qed

lemma run_visibility_startTime:
  "startTime (fst (run_visibility evs w)) = startTime (fst w)"
  by (induction evs w rule: run_visibility.induct) (simp_all add: timer_step_startTime)

lemma hide_event:
  "fst (timer_step (VisibilityChange True a) w) = (fst w)\<lparr>isTabHidden := True, tabHiddenAt := Some a\<rparr>"
  by (cases w) (simp add: visibilitychange_def)

lemma hide_event_tracked:
  "0 < a \<Longrightarrow> hidden_tracked (fst (timer_step (VisibilityChange True a) w))"
  by (simp add: hide_event hidden_tracked_def)

lemma hide_event_freezes:
  assumes "truthy_num (startTime (fst w))" and "0 < a"
    and "0 \<le> a - num_of (startTime (fst w)) - pausedTime (fst w)"
  shows "fst (getElapsedActiveTime now (fst (timer_step (VisibilityChange True a) w)))
           = a - num_of (startTime (fst w)) - pausedTime (fst w)"
  using assms by (simp add: hide_event getElapsedActiveTime_def Let_def)

lemma show_event:
  assumes "truthy_num (startTime (fst w))" and "0 < a"
  shows "\<not> isTabHidden (fst (timer_step (VisibilityChange False b) (timer_step (VisibilityChange True a) w)))"
    and "pausedTime (fst (timer_step (VisibilityChange False b) (timer_step (VisibilityChange True a) w)))
           = pausedTime (fst w) + (b - a)"
    and "tabHiddenAt (fst (timer_step SaveSettled
           (timer_step (VisibilityChange False b) (timer_step (VisibilityChange True a) w)))) = None"
proof -
  obtain t st waiting where w: "w = (t, st, waiting)" by (cases w)
  with assms show
    "\<not> isTabHidden (fst (timer_step (VisibilityChange False b) (timer_step (VisibilityChange True a) w)))"
    "pausedTime (fst (timer_step (VisibilityChange False b) (timer_step (VisibilityChange True a) w)))
           = pausedTime (fst w) + (b - a)"
    "tabHiddenAt (fst (timer_step SaveSettled
           (timer_step (VisibilityChange False b) (timer_step (VisibilityChange True a) w)))) = None"
    by (simp_all add: visibilitychange_def visibilitychange_resume_def Let_def split: nat.splits)
qed

text \<open>
  What holds of every state. Take a started timer and any sequence of visibility events
  and settled saves, in any interleaving. In the state reached, \<open>getElapsedActiveTime\<close>
  returns a value that is at least \<open>0\<close>. Where a hidden tab has the start of its hidden
  interval on record (\<open>tabHiddenAt\<close>), the value is \<open>now - startTime - pausedTime\<close>, less
  \<open>now - tabHiddenAt\<close> if the tab is hidden; where a hidden tab has none on record, nothing
  is taken off for the hidden time. When the value is not negative the function returns
  exactly it and leaves the timer as it is; when it is negative, it returns \<open>0\<close> and has
  set \<open>startTime\<close> to \<open>now\<close>, \<open>pausedTime\<close> to \<open>0\<close> and \<open>tabHiddenAt\<close> to \<^verbatim>\<open>null\<close>. The function
  is total: it has no exit but these returns. A hide event at a positive clock reading
  \<open>a\<close> sets \<open>isTabHidden\<close> and records \<open>a\<close> as the start of the interval, and from then on
  the active time stands still at \<open>a - startTime - pausedTime\<close> (when that is not
  negative) whatever \<open>now\<close> is; a show event at \<open>b\<close> right after it adds the interval
  \<open>b - a\<close> to \<open>pausedTime\<close>, and \<open>tabHiddenAt\<close> is \<^verbatim>\<open>null\<close> once the save of that show handler
  has settled.
\<close>

lemma getElapsedActiveTime_after_visibility_events:
  assumes started: "truthy_num (startTime t0)"
  shows "let w = run_visibility evs (t0, st, waiting); t = fst w in
           0 \<le> fst (getElapsedActiveTime now t) \<and>
           (hidden_tracked t \<longrightarrow>
              getElapsedActiveTime now t =
                (if elapsedActive now t < 0
                 then (0, t\<lparr>startTime := Some now, pausedTime := 0, tabHiddenAt := None\<rparr>)
                 else (elapsedActive now t, t))) \<and>
           (\<not> hidden_tracked t \<longrightarrow>
              getElapsedActiveTime now t =
                (if now - num_of (startTime t) - pausedTime t < 0
                 then (0, t\<lparr>startTime := Some now, pausedTime := 0, tabHiddenAt := None\<rparr>)
                 else (now - num_of (startTime t) - pausedTime t, t))) \<and>
           (\<forall>a. 0 < a \<longrightarrow>
              fst (timer_step (VisibilityChange True a) w)
                = t\<lparr>isTabHidden := True, tabHiddenAt := Some a\<rparr> \<and>
              hidden_tracked (fst (timer_step (VisibilityChange True a) w)) \<and>
              (0 \<le> a - num_of (startTime t) - pausedTime t \<longrightarrow>
                 fst (getElapsedActiveTime now (fst (timer_step (VisibilityChange True a) w)))
                   = a - num_of (startTime t) - pausedTime t) \<and>
              (\<forall>b. \<not> isTabHidden (fst (timer_step (VisibilityChange False b)
                                          (timer_step (VisibilityChange True a) w))) \<and>
                   pausedTime (fst (timer_step (VisibilityChange False b)
                                     (timer_step (VisibilityChange True a) w)))
                     = pausedTime t + (b - a) \<and>
                   tabHiddenAt (fst (timer_step SaveSettled
                                      (timer_step (VisibilityChange False b)
                                        (timer_step (VisibilityChange True a) w)))) = None))"
proof -
  let ?w = "run_visibility evs (t0, st, waiting)"
  let ?t = "fst ?w"
  have s: "truthy_num (startTime ?t)"
    using started by (simp add: run_visibility_startTime)
  have n: "0 \<le> fst (getElapsedActiveTime now ?t)"
    by (rule getElapsedActiveTime_nonneg)
  have tr: "hidden_tracked ?t \<longrightarrow>
              getElapsedActiveTime now ?t =
                (if elapsedActive now ?t < 0
                 then (0, ?t\<lparr>startTime := Some now, pausedTime := 0, tabHiddenAt := None\<rparr>)
                 else (elapsedActive now ?t, ?t))"
    using getElapsedActiveTime_tracked [OF s] by blast
  have un: "\<not> hidden_tracked ?t \<longrightarrow>
              getElapsedActiveTime now ?t =
                (if now - num_of (startTime ?t) - pausedTime ?t < 0
                 then (0, ?t\<lparr>startTime := Some now, pausedTime := 0, tabHiddenAt := None\<rparr>)
                 else (now - num_of (startTime ?t) - pausedTime ?t, ?t))"
    using getElapsedActiveTime_untracked [OF s] by blast
  have ev: "fst (timer_step (VisibilityChange True a) ?w)
                = ?t\<lparr>isTabHidden := True, tabHiddenAt := Some a\<rparr> \<and>
              hidden_tracked (fst (timer_step (VisibilityChange True a) ?w)) \<and>
              (0 \<le> a - num_of (startTime ?t) - pausedTime ?t \<longrightarrow>
                 fst (getElapsedActiveTime now (fst (timer_step (VisibilityChange True a) ?w)))
                   = a - num_of (startTime ?t) - pausedTime ?t) \<and>
              (\<forall>b. \<not> isTabHidden (fst (timer_step (VisibilityChange False b)
                                          (timer_step (VisibilityChange True a) ?w))) \<and>
                   pausedTime (fst (timer_step (VisibilityChange False b)
                                     (timer_step (VisibilityChange True a) ?w)))
                     = pausedTime ?t + (b - a) \<and>
                   tabHiddenAt (fst (timer_step SaveSettled
                                      (timer_step (VisibilityChange False b)
                                        (timer_step (VisibilityChange True a) ?w)))) = None)"
    if a: "0 < a" for a
    using hide_event [of a ?w] hide_event_tracked [OF a, of ?w]
      hide_event_freezes [OF s a, of now] show_event [OF s a]
    by blast
  show ?thesis
    unfolding Let_def using n tr un ev by blast
qed

text \<open>The timer of the example is hidden from 11000 to 21000 and again from 31000; at
  36000 the active time is 20000.\<close>

lemma getElapsedActiveTime_after_visibility_events_example:
  "truthy_num (startTime timer_example) \<and>
   getElapsedActiveTime 36000
     (fst (run_visibility [VisibilityChange True 11000, VisibilityChange False 21000, SaveSettled,
                           VisibilityChange True 31000] (timer_example, [], 0)))
     = (20000,
        timer_example\<lparr>pausedTime := 10000, isTabHidden := True, tabHiddenAt := Some 31000\<rparr>)"
proof -
  have a: "truthy_num (startTime timer_example)" by (simp add: timer_example_def)
  have d: "fst (run_visibility [VisibilityChange True 11000, VisibilityChange False 21000,
                                SaveSettled, VisibilityChange True 31000] (timer_example, [], 0))
             = timer_example\<lparr>pausedTime := 10000, isTabHidden := True, tabHiddenAt := Some 31000\<rparr>"
    by (simp add: visibilitychange_def visibilitychange_resume_def timer_example_def Let_def)
  have h: "hidden_tracked
             (timer_example\<lparr>pausedTime := 10000, isTabHidden := True, tabHiddenAt := Some 31000\<rparr>)"
    by (simp add: hidden_tracked_def)
  have e: "elapsedActive 36000
             (timer_example\<lparr>pausedTime := 10000, isTabHidden := True, tabHiddenAt := Some 31000\<rparr>)
             = 20000"
    by (simp add: elapsedActive_def timer_example_def)
  show ?thesis
    using a h getElapsedActiveTime_after_visibility_events [OF a,
        of "[VisibilityChange True 11000, VisibilityChange False 21000, SaveSettled,
             VisibilityChange True 31000]" "[]" 0 36000]
    unfolding Let_def d e by simp
qed

text \<open>
  C1. The claim is that in every state reachable by hide and show events the value of
  \<open>getElapsedActiveTime\<close> is the wall-clock time since \<open>startTime\<close> less \<open>pausedTime\<close> and less
  the current hidden interval of a hidden tab. The code takes that interval off only
  when its start is on record, and there are hidden tabs without one. The hide handler
  records \<open>tabHiddenAt\<close>; \<open>reset\<close> (like \<open>resetTimer\<close> and the constructor) in a hidden tab
  sets \<open>isTabHidden\<close> and leaves \<open>tabHiddenAt\<close> at \<^verbatim>\<open>null\<close>. So a timer reset at 1000 in a
  hidden tab that stays hidden, with no event at all, has been hidden for all of the
  35000 since its start when it is read at 36000, and \<open>getElapsedActiveTime\<close> returns all
  35000 as active time, where the claim's value is 0. And a hide event that is handled
  while a show handler waits for its save loses its \<open>tabHiddenAt\<close> when that handler
  resumes: the tab is hidden from 11000 to 21000 and again from 31000, and once the save
  has settled the timer is hidden with no start on record, so that at 36000 the value is
  25000, the 5000 hidden since 31000 counted as active, where the claim's value is 20000.
\<close>

theorem hidden_since_reset_counts_as_active:
  "isTabHidden (reset True 1000 timer_example) \<and>
   startTime (reset True 1000 timer_example) = Some 1000 \<and>
   pausedTime (reset True 1000 timer_example) = 0 \<and>
   fst (run_visibility [] (reset True 1000 timer_example, [], 0)) = reset True 1000 timer_example \<and>
   getElapsedActiveTime 36000 (reset True 1000 timer_example)
     = (35000, reset True 1000 timer_example) \<and>
   fst (run_visibility [VisibilityChange True 11000, VisibilityChange False 21000,
                        VisibilityChange True 31000, SaveSettled] (timer_example, [], 0))
     = timer_example\<lparr>pausedTime := 10000, isTabHidden := True, tabHiddenAt := None\<rparr> \<and>
   getElapsedActiveTime 36000
     (timer_example\<lparr>pausedTime := 10000, isTabHidden := True, tabHiddenAt := None\<rparr>)
     = (25000, timer_example\<lparr>pausedTime := 10000, isTabHidden := True, tabHiddenAt := None\<rparr>)"
  by (simp add: reset_def timer_example_def getElapsedActiveTime_def visibilitychange_def
      visibilitychange_resume_def Let_def)

lemma storageKey_not_position: "storageKey u \<noteq> ''timer_overlay_position''"
  by (simp add: storageKey_def)

lemma obj_get_update: "obj_get (AList.update k v ob) k' = (if k' = k then v else obj_get ob k')"
  by (simp add: obj_get_def update_conv')

lemma saveToStorage_frame:
  assumes "key \<noteq> ''timer_overlay_position''"
    and "k \<noteq> ''problemStartTime''" and "k \<noteq> ''pausedTime''"
  shows "val_get (obj_get (saveToStorage t st) key) k = val_get (obj_get st key) k"
proof (cases "truthy_str (problemUrl t)")
  case False
  then show ?thesis by (simp add: saveToStorage_def)
next
  case True
  let ?key = "storageKey (str_of (problemUrl t))"
  show ?thesis
  proof (cases "js_or (obj_get st ?key) (JObj [])")
    case (JObj ob)
    then have "val_get (obj_get st ?key) k = obj_get ob k"
      by (cases "obj_get st ?key") (auto simp add: js_or_def obj_get_def split: if_splits)
    with True JObj assms show ?thesis
      by (simp add: saveToStorage_def Let_def obj_get_update)
  next
    case (JArr xs)
    then have "obj_get st ?key = JArr xs"
      by (cases "obj_get st ?key") (auto simp add: js_or_def split: if_splits)
    with True JArr assms show ?thesis
      by (simp add: saveToStorage_def Let_def obj_get_update)
  qed (use True in \<open>simp_all add: saveToStorage_def Let_def\<close>)
qed

lemma saveToStorage_writes:
  assumes "truthy_str (problemUrl t)"
    and "record_writable st (storageKey (str_of (problemUrl t)))"
  shows "persisted t (saveToStorage t st)"
  using assms
  by (auto simp add: persisted_def record_writable_def saveToStorage_def Let_def obj_get_update
      storageKey_not_position split: jsval.splits)

text \<open>
  C9. A timer write leaves every field of the problem's stored record other than
  \<open>problemStartTime\<close> and \<open>pausedTime\<close> as it was stored before, whatever was stored; and
  when the timer has a problem URL and the stored value is an object (or missing, or
  falsy, which starts a fresh object), the record written back holds the timer's
  \<open>startTime\<close> and \<open>pausedTime\<close> in those two fields.
\<close>

theorem saveToStorage_preserves_other_fields:
  assumes "k \<noteq> ''problemStartTime''" and "k \<noteq> ''pausedTime''"
  shows "val_get (obj_get (saveToStorage t st) (storageKey (str_of (problemUrl t)))) k
           = val_get (obj_get st (storageKey (str_of (problemUrl t)))) k \<and>
         (truthy_str (problemUrl t) \<and> record_writable st (storageKey (str_of (problemUrl t)))
            \<longrightarrow> persisted t (saveToStorage t st))"
  using assms saveToStorage_frame [OF storageKey_not_position] saveToStorage_writes by blast

text \<open>A later state of the example timer is written over the stored record: the name
  and the solved status stay, the two timer fields are the timer's.\<close>

theorem saveToStorage_preserves_other_fields_witness:
  "val_get (obj_get (saveToStorage (timer_example\<lparr>startTime := Some 7000, pausedTime := 250\<rparr>)
                       store_example) ''problem_data_two-sum'') ''solved''
     = JObj [(''value'', JBool True), (''date'', JNum 500), (''tries'', JNum 2)] \<and>
   persisted (timer_example\<lparr>startTime := Some 7000, pausedTime := 250\<rparr>)
     (saveToStorage (timer_example\<lparr>startTime := Some 7000, pausedTime := 250\<rparr>) store_example)"
proof -
  have a: "''solved'' \<noteq> ''problemStartTime''" and b: "''solved'' \<noteq> ''pausedTime''"
    by simp_all
  have c: "storageKey (str_of (problemUrl (timer_example\<lparr>startTime := Some 7000, pausedTime := 250\<rparr>)))
             = ''problem_data_two-sum''"
    by (simp add: storageKey_def timer_example_def)
  have d: "record_writable store_example ''problem_data_two-sum''"
    by (simp add: record_writable_def store_example_def obj_get_def js_or_def)
  have e: "val_get (obj_get store_example ''problem_data_two-sum'') ''solved''
             = JObj [(''value'', JBool True), (''date'', JNum 500), (''tries'', JNum 2)]"
    by (simp add: store_example_def obj_get_def)
  have f: "truthy_str (problemUrl (timer_example\<lparr>startTime := Some 7000, pausedTime := 250\<rparr>))"
    by (simp add: timer_example_def)
  show ?thesis
    using saveToStorage_preserves_other_fields [OF a b,
        of "timer_example\<lparr>startTime := Some 7000, pausedTime := 250\<rparr>" store_example]
    unfolding c using d e f by simp
qed

lemma getElapsedActiveTime_reset:
  "getElapsedActiveTime now (reset h now t) = (0, reset h now t)"
  by (simp add: getElapsedActiveTime_def reset_def Let_def)

text \<open>
  C8 as stated fails: \<open>reset\<close> assigns the fields in memory and makes no storage call, so
  the store after it is the store before it. Here that store holds the example timer's
  state, and after a reset at 5000 it does not hold the new one.
\<close>

theorem reset_not_persisted:
  "persisted timer_example store_example \<and>
   \<not> persisted (reset False 5000 timer_example) store_example"
  by (simp add: persisted_def reset_def timer_example_def store_example_def storageKey_def
      obj_get_def)

text \<open>
  C8, amended. After \<open>reset\<close> at the clock reading \<open>now\<close>: \<open>startTime\<close> is \<open>now\<close>,
  \<open>pausedTime\<close> is \<open>0\<close>, \<open>tabHiddenAt\<close> is \<^verbatim>\<open>null\<close> and \<open>isTabHidden\<close> is \<^verbatim>\<open>document.hidden\<close>,
  and \<open>getElapsedActiveTime\<close> at the same reading returns \<open>0\<close> and changes nothing. \<open>reset\<close>
  does not write to the store. It is \<open>resetTimer\<close> that persists at once: its store is
  the one \<open>saveToStorage\<close> leaves for the reset state, which holds that state when the
  timer has a problem URL and the stored value can take it; and on a clock that has not
  gone back by the display refresh, its timer is the reset one.
\<close>

theorem reset_then_elapsed_zero:
  "startTime (reset h now t) = Some now \<and>
   pausedTime (reset h now t) = 0 \<and>
   tabHiddenAt (reset h now t) = None \<and>
   isTabHidden (reset h now t) = h \<and>
   getElapsedActiveTime now (reset h now t) = (0, reset h now t) \<and>
   snd (resetTimer h now shown now' (t, st)) = saveToStorage (reset h now t) st \<and>
   (truthy_str (problemUrl t) \<and> record_writable st (storageKey (str_of (problemUrl t)))
      \<longrightarrow> persisted (reset h now t) (snd (resetTimer h now shown now' (t, st)))) \<and>
   (now \<le> now' \<longrightarrow> fst (resetTimer h now shown now' (t, st)) = reset h now t)"
proof -
  have u: "problemUrl (reset h now t) = problemUrl t"
    by (simp add: reset_def)
  have s: "snd (resetTimer h now shown now' (t, st)) = saveToStorage (reset h now t) st"
    by (simp add: resetTimer_def reset_def Let_def)
  have p: "truthy_str (problemUrl t) \<and> record_writable st (storageKey (str_of (problemUrl t)))
             \<longrightarrow> persisted (reset h now t) (snd (resetTimer h now shown now' (t, st)))"
    using saveToStorage_writes [of "reset h now t" st] u s by simp
  have f: "now \<le> now' \<longrightarrow> fst (resetTimer h now shown now' (t, st)) = reset h now t"
    by (simp add: resetTimer_def reset_def updateDisplay_def getElapsedActiveTime_def Let_def)
  show ?thesis
    using s p f getElapsedActiveTime_reset [of now h t] by (simp add: reset_def)
qed

theorem reset_then_elapsed_zero_witness:
  "getElapsedActiveTime 5000 (reset False 5000 timer_example) = (0, reset False 5000 timer_example) \<and>
   persisted (reset False 5000 timer_example)
     (snd (resetTimer False 5000 True 5001 (timer_example, store_example))) \<and>
   fst (resetTimer False 5000 True 5001 (timer_example, store_example))
     = reset False 5000 timer_example"
proof -
  have a: "truthy_str (problemUrl timer_example)" by (simp add: timer_example_def)
  have b: "record_writable store_example (storageKey (str_of (problemUrl timer_example)))"
    by (simp add: record_writable_def store_example_def obj_get_def js_or_def storageKey_def
        timer_example_def)
  have c: "(5000::int) \<le> 5001" by simp
  show ?thesis
    using reset_then_elapsed_zero [of False 5000 timer_example True 5001 store_example] a b c
    by blast
qed

section \<open>Properties of the stored problem record\<close>

lemma storeProblemData_other_key:
  "k \<noteq> storageKey (url pinfo) \<Longrightarrow>
     obj_get (storeProblemData now stamp tm pinfo solved e st) k = obj_get st k"
  by (simp add: storeProblemData_def Let_def obj_get_update)

lemma truthy_value_is_object:
  assumes "truthy (val_get v ''value'')"
  shows "truthy v"
  using assms by (cases v) simp_all

lemma storeProblemData_solved_kept:
  assumes "truthy (val_get (val_get (obj_get st (storageKey (url pinfo))) ''solved'') ''value'')"
  shows "val_get (obj_get (storeProblemData now stamp tm pinfo solved e st) (storageKey (url pinfo)))
           ''solved''
         = val_get (obj_get st (storageKey (url pinfo))) ''solved''"
proof -
  let ?ex = "obj_get st (storageKey (url pinfo))"
  have p: "truthy (val_get ?ex ''solved'')"
    using assms by (rule truthy_value_is_object)
  then have x: "truthy ?ex"
    by (cases ?ex) simp_all
  show ?thesis
    using assms p x
    by (simp add: storeProblemData_def Let_def obj_get_update js_or_def)
qed

text \<open>
  C2. Let the record stored under a key have a \<open>solved\<close> object whose \<open>value\<close> is true
  (truthy). After any sequence of \<open>storeProblemData\<close> writes, with any arguments (any
  problem, \<open>solved\<close> true or false, any tracker state, any clock), the record under that
  key has the same \<open>solved\<close> object, unchanged.
\<close>

theorem solved_is_sticky:
  assumes "truthy (val_get (val_get (obj_get st key) ''solved'') ''value'')"
  shows "val_get (obj_get (store_writes ws st) key) ''solved''
           = val_get (obj_get st key) ''solved''"
  using assms
proof (induction ws st rule: store_writes.induct)
  case (1 st)
  then show ?case by simp
next
  case (2 now stamp tm pinfo solved e ws st)
  let ?st' = "storeProblemData now stamp tm pinfo solved e st"
  have keep: "val_get (obj_get ?st' key) ''solved'' = val_get (obj_get st key) ''solved''"
  proof (cases "key = storageKey (url pinfo)")
    case True
    with "2.prems" show ?thesis by (simp add: storeProblemData_solved_kept)
  next
    case False
    then show ?thesis by (simp add: storeProblemData_other_key)
  qed
  with "2.prems" have "truthy (val_get (val_get (obj_get ?st' key) ''solved'') ''value'')"
    by simp
  from "2.IH" [OF this] keep show ?case by simp
qed

text \<open>Two writes for the solved problem of the example store, the first as not solved:
  the \<open>solved\<close> object of date 500 with 2 tries is still there.\<close>

theorem solved_is_sticky_witness:
  "val_get (obj_get
      (store_writes [(9000, ''2026-01-01T00:00:09.000Z'', None,
                        problem_example, False, new_extractor),
                     (9500, ''2026-01-01T00:00:09.500Z'', None,
                        problem_example, True, new_extractor)]
         store_example)
      ''problem_data_two-sum'') ''solved''
    = JObj [(''value'', JBool True), (''date'', JNum 500), (''tries'', JNum 2)]"
proof -
  have a: "truthy (val_get (val_get (obj_get store_example ''problem_data_two-sum'') ''solved'')
             ''value'')"
    by (simp add: store_example_def obj_get_def)
  have b: "val_get (obj_get store_example ''problem_data_two-sum'') ''solved''
             = JObj [(''value'', JBool True), (''date'', JNum 500), (''tries'', JNum 2)]"
    by (simp add: store_example_def obj_get_def)
  show ?thesis
    by (rule trans [OF solved_is_sticky [OF a] b])
qed

section \<open>Properties of the attempt tracker\<close>

lemma last_run_index_Some:
  "last_run_index xs = Some i \<Longrightarrow>
     i < length xs \<and> att_type (xs ! i) = ''run'' \<and>
     (\<forall>j. i < j \<and> j < length xs \<longrightarrow> att_type (xs ! j) \<noteq> ''run'')"
proof (induction xs arbitrary: i)
  case Nil
  then show ?case by simp
next
  case (Cons a as)
  show ?case
  proof (cases "last_run_index as")
    case None
    have none: "\<And>j. j < length as \<Longrightarrow> att_type (as ! j) \<noteq> ''run''"
      using None
    proof (induction as)
      case Nil
      then show ?case by simp
    next
      case (Cons b bs)
      then show ?case by (cases j) (auto split: option.splits if_splits)
    qed
    from None Cons.prems have i: "i = 0" and a: "att_type a = ''run''"
      by (auto split: if_splits)
    show ?thesis
    proof (intro conjI allI impI)
      fix j assume "i < j \<and> j < length (a # as)"
      then obtain j' where "j = Suc j'" "j' < length as" using i by (cases j) auto
      then show "att_type ((a # as) ! j) \<noteq> ''run''" using none by simp
    qed (use i a in simp_all)
  next
    case (Some k)
    with Cons.prems have i: "i = Suc k" by simp
    from Cons.IH [OF Some] have k: "k < length as" "att_type (as ! k) = ''run''"
      and later: "\<forall>j. k < j \<and> j < length as \<longrightarrow> att_type (as ! j) \<noteq> ''run''"
      by auto
    show ?thesis
    proof (intro conjI allI impI)
      fix j assume "i < j \<and> j < length (a # as)"
      then obtain j' where "j = Suc j'" "k < j'" "j' < length as" using i by (cases j) auto
      then show "att_type ((a # as) ! j) \<noteq> ''run''" using later by simp
    qed (use i k in simp_all)
  qed
qed

lemma filter_length_update:
  "i < length xs \<Longrightarrow> \<not> P (xs ! i) \<Longrightarrow>
     length (filter P (xs[i := y])) = length (filter P xs) + (if P y then 1 else 0)"
proof (induction xs arbitrary: i)
  case Nil
  then show ?case by simp
next
  case (Cons x xs)
  then show ?case by (cases i) auto
qed

lemma failed_attempts_resolve:
  "i < length xs \<Longrightarrow> successful (xs ! i) = None \<Longrightarrow>
     failed_attempts (xs[i := (xs ! i)\<lparr>successful := Some ok\<rparr>])
       = failed_attempts xs + (if ok then 0 else 1)"
  by (simp add: failed_attempts_def filter_length_update)

lemma failed_attempts_append_pending:
  "successful a = None \<Longrightarrow> failed_attempts (xs @ [a]) = failed_attempts xs"
  by (simp add: failed_attempts_def)

lemma handleThreeIncorrectRuns_fields [simp]:
  "attempts (handleThreeIncorrectRuns e) = attempts e"
  "incorrectRunCounter (handleThreeIncorrectRuns e) = incorrectRunCounter e"
  "hasAnalyzedMistakes (handleThreeIncorrectRuns e)"
  by (simp_all add: handleThreeIncorrectRuns_def)

text \<open>What a run result does, case by case.\<close>

lemma on_RUN_RESPONSE_ignored:
  assumes "last_run_index (attempts e) = None \<or>
           (\<exists>i. last_run_index (attempts e) = Some i \<and> successful (attempts e ! i) \<noteq> None)"
  shows "on_RUN_RESPONSE r e = e"
  using assms by (auto simp add: on_RUN_RESPONSE_def split: option.splits)

lemma on_RUN_RESPONSE_applied:
  assumes "last_run_index (attempts e) = Some i" and "successful (attempts e ! i) = None"
  shows "attempts (on_RUN_RESPONSE r e)
           = (attempts e)[i := (attempts e ! i)\<lparr>successful := Some (\<not> run_failed r)\<rparr>]"
    and "incorrectRunCounter (on_RUN_RESPONSE r e)
           = incorrectRunCounter e + (if run_failed r then 1 else 0)"
    and "hasAnalyzedMistakes (on_RUN_RESPONSE r e)
           = (hasAnalyzedMistakes e \<or> (run_failed r \<and> 2 \<le> incorrectRunCounter e + 1))"
  using assms by (auto simp add: on_RUN_RESPONSE_def run_failed_def Let_def)

lemma on_RUN_RESPONSE_invariant:
  "incorrectRunCounter (on_RUN_RESPONSE r e) + failed_attempts (attempts e)
     = incorrectRunCounter e + failed_attempts (attempts (on_RUN_RESPONSE r e))"
proof (cases "last_run_index (attempts e)")
  case None
  then show ?thesis by (simp add: on_RUN_RESPONSE_ignored)
next
  case (Some i)
  show ?thesis
  proof (cases "successful (attempts e ! i) = None")
    case True
    from last_run_index_Some [OF Some] have i: "i < length (attempts e)" by simp
    show ?thesis
      using on_RUN_RESPONSE_applied(1,2) [OF Some True, of r] failed_attempts_resolve [OF i True]
      by simp
  next
    case False
    with Some show ?thesis by (simp add: on_RUN_RESPONSE_ignored)
  qed
qed

lemma on_RUN_RESPONSE_length [simp]:
  "length (attempts (on_RUN_RESPONSE r e)) = length (attempts e)"
  by (auto simp add: on_RUN_RESPONSE_def Let_def split: option.splits)

lemma on_RUN_RESPONSE_changes:
  assumes "i < length (attempts e)"
    and "attempts (on_RUN_RESPONSE r e) ! i \<noteq> attempts e ! i"
  shows "last_run_index (attempts e) = Some i \<and> successful (attempts e ! i) = None \<and>
         attempts (on_RUN_RESPONSE r e) ! i = (attempts e ! i)\<lparr>successful := Some (\<not> run_failed r)\<rparr>"
proof (cases "last_run_index (attempts e)")
  case None
  with assms show ?thesis by (simp add: on_RUN_RESPONSE_ignored)
next
  case (Some k)
  show ?thesis
  proof (cases "successful (attempts e ! k) = None")
    case True
    from on_RUN_RESPONSE_applied(1) [OF Some True, of r] assms
    have "k = i" by (cases "k = i") simp_all
    with Some True on_RUN_RESPONSE_applied(1) [OF Some True, of r] assms(1)
    show ?thesis by simp
  next
    case False
    with Some assms show ?thesis by (simp add: on_RUN_RESPONSE_ignored)
  qed
qed

lemma on_CODE_RUN_attempts:
  "attempts (on_CODE_RUN p s e) = attempts e \<or>
   (\<exists>a. successful a = None \<and> att_type a = ''run'' \<and> attempts (on_CODE_RUN p s e) = attempts e @ [a])"
  by (simp add: on_CODE_RUN_def Let_def)

lemma on_CODE_RUN_counter [simp]:
  "incorrectRunCounter (on_CODE_RUN p s e) = incorrectRunCounter e"
  "hasAnalyzedMistakes (on_CODE_RUN p s e) = hasAnalyzedMistakes e"
  by (simp_all add: on_CODE_RUN_def Let_def)

lemma on_CODE_RUN_failed [simp]:
  "failed_attempts (attempts (on_CODE_RUN p s e)) = failed_attempts (attempts e)"
  using on_CODE_RUN_attempts [of p s e] by (auto simp add: failed_attempts_append_pending)

lemma on_CODE_RUN_nth:
  "i < length (attempts e) \<Longrightarrow> attempts (on_CODE_RUN p s e) ! i = attempts e ! i"
  using on_CODE_RUN_attempts [of p s e] by (auto simp add: nth_append)

lemma on_CODE_RUN_length: "length (attempts e) \<le> length (attempts (on_CODE_RUN p s e))"
  using on_CODE_RUN_attempts [of p s e] by auto


lemma on_failed_submission_fields:
  "incorrectRunCounter (on_failed_submission e) = incorrectRunCounter e + 1"
  "hasAnalyzedMistakes (on_failed_submission e) = (hasAnalyzedMistakes e \<or> 3 \<le> incorrectRunCounter e + 1)"
  "attempts (on_failed_submission e) = attempts e"
  by (auto simp add: on_failed_submission_def Let_def)

lemma on_CODE_SUBMIT_fields [simp]:
  "incorrectRunCounter (wext (on_CODE_SUBMIT p now w)) = incorrectRunCounter (wext w)"
  "hasAnalyzedMistakes (wext (on_CODE_SUBMIT p now w)) = hasAnalyzedMistakes (wext w)"
  "attempts (wext (on_CODE_SUBMIT p now w)) = attempts (wext w)"
  by (simp_all add: on_CODE_SUBMIT_def Let_def)

lemma step_counter:
  assumes "\<not> successful_submission ev"
  shows "incorrectRunCounter (wext (step ev w)) + failed_attempts (attempts (wext w))
           = incorrectRunCounter (wext w) + failed_attempts (attempts (wext (step ev w)))
             + (if failed_submission ev then 1 else 0)"
proof (cases ev)
  case (CODE_SUBMIT p now)
  then show ?thesis by simp
next
  case (CODE_RUN p s)
  then show ?thesis by simp
next
  case (RUN_RESPONSE r)
  then show ?thesis using on_RUN_RESPONSE_invariant [of r "wext w"] by simp
next
  case (SUBMISSION_RESPONSE sd env)
  with assms show ?thesis by (simp add: on_failed_submission_fields)
qed

lemma run_counter:
  assumes "\<forall>ev \<in> set evs. \<not> successful_submission ev"
  shows "incorrectRunCounter (wext (run evs w)) + failed_attempts (attempts (wext w))
           = incorrectRunCounter (wext w) + failed_attempts (attempts (wext (run evs w)))
             + failed_submissions evs"
  using assms
proof (induction evs arbitrary: w)
  case Nil
  then show ?case by (simp add: failed_submissions_def)
next
  case (Cons ev evs)
  from Cons.prems have a: "\<not> successful_submission ev"
    and b: "\<forall>ev \<in> set evs. \<not> successful_submission ev" by simp_all
  have c: "failed_submissions (ev # evs)
             = (if failed_submission ev then 1 else 0) + failed_submissions evs"
    by (simp add: failed_submissions_def)
  obtain d :: nat where d: "d = (if failed_submission ev then 1 else 0)" by simp
  have A: "incorrectRunCounter (wext (run evs (step ev w))) + failed_attempts (attempts (wext (step ev w)))
             = incorrectRunCounter (wext (step ev w))
               + failed_attempts (attempts (wext (run evs (step ev w)))) + failed_submissions evs"
    using Cons.IH [OF b, of "step ev w"] .
  have B: "incorrectRunCounter (wext (step ev w)) + failed_attempts (attempts (wext w))
             = incorrectRunCounter (wext w) + failed_attempts (attempts (wext (step ev w))) + d"
    using step_counter [OF a, of w] d by simp
  have C: "failed_submissions (ev # evs) = d + failed_submissions evs"
    using c d by simp
  show ?case
    unfolding run.simps using A B C by linarith
qed

lemma step_resolved:
  assumes "\<not> successful_submission ev" and "i < length (attempts (wext w))"
    and "successful (attempts (wext w) ! i) \<noteq> None"
  shows "attempts (wext (step ev w)) ! i = attempts (wext w) ! i"
proof (cases ev)
  case (CODE_SUBMIT p now)
  then show ?thesis by simp
next
  case (CODE_RUN p s)
  with assms show ?thesis by (simp add: on_CODE_RUN_nth)
next
  case (RUN_RESPONSE r)
  show ?thesis
  proof (rule ccontr)
    assume "attempts (wext (step ev w)) ! i \<noteq> attempts (wext w) ! i"
    with RUN_RESPONSE have "attempts (on_RUN_RESPONSE r (wext w)) ! i \<noteq> attempts (wext w) ! i"
      by simp
    from on_RUN_RESPONSE_changes [OF assms(2) this] assms(3) show False by simp
  qed
next
  case (SUBMISSION_RESPONSE sd env)
  with assms(1) show ?thesis by (simp add: on_failed_submission_fields)
qed

lemma step_length:
  assumes "\<not> successful_submission ev"
  shows "length (attempts (wext w)) \<le> length (attempts (wext (step ev w)))"
  using assms by (cases ev) (simp_all add: on_CODE_RUN_length on_failed_submission_fields)

lemma run_resolved:
  assumes "\<forall>ev \<in> set evs. \<not> successful_submission ev" and "i < length (attempts (wext w))"
    and "successful (attempts (wext w) ! i) \<noteq> None"
  shows "attempts (wext (run evs w)) ! i = attempts (wext w) ! i"
  using assms
proof (induction evs arbitrary: w)
  case Nil
  then show ?case by simp
next
  case (Cons ev evs)
  from Cons.prems have ev: "\<not> successful_submission ev"
    and evs: "\<forall>ev \<in> set evs. \<not> successful_submission ev"
    by simp_all
  have same: "attempts (wext (step ev w)) ! i = attempts (wext w) ! i"
    using step_resolved [OF ev Cons.prems(2,3)] .
  have len: "i < length (attempts (wext (step ev w)))"
    using step_length [OF ev, of w] Cons.prems(2) by simp
  from Cons.IH [OF evs len] same Cons.prems(3) show ?case by simp
qed

lemma on_RUN_RESPONSE_counter_iff:
  "incorrectRunCounter (on_RUN_RESPONSE r e)
     = incorrectRunCounter e +
       (if \<exists>i < length (attempts e). successful (attempts e ! i) = None \<and>
             successful (attempts (on_RUN_RESPONSE r e) ! i) = Some False
        then 1 else 0)"
proof (cases "last_run_index (attempts e)")
  case None
  then have "on_RUN_RESPONSE r e = e" by (simp add: on_RUN_RESPONSE_ignored)
  then show ?thesis by auto
next
  case (Some k)
  from last_run_index_Some [OF Some] have k: "k < length (attempts e)" by simp
  show ?thesis
  proof (cases "successful (attempts e ! k) = None")
    case False
    with Some have "on_RUN_RESPONSE r e = e" by (simp add: on_RUN_RESPONSE_ignored)
    then show ?thesis by auto
  next
    case True
    note ap = on_RUN_RESPONSE_applied(1,2) [OF Some True, of r]
    have "(\<exists>i < length (attempts e). successful (attempts e ! i) = None \<and>
             successful (attempts (on_RUN_RESPONSE r e) ! i) = Some False) = run_failed r"
    proof
      assume "\<exists>i < length (attempts e). successful (attempts e ! i) = None \<and>
             successful (attempts (on_RUN_RESPONSE r e) ! i) = Some False"
      then obtain i where i: "i < length (attempts e)" "successful (attempts e ! i) = None"
        "successful (attempts (on_RUN_RESPONSE r e) ! i) = Some False" by blast
      show "run_failed r"
      proof (cases "i = k")
        case True
        with i ap(1) k show ?thesis by simp
      next
        case False
        with i ap(1) show ?thesis by simp
      qed
    next
      assume "run_failed r"
      with ap(1) k True show "\<exists>i < length (attempts e). successful (attempts e ! i) = None \<and>
             successful (attempts (on_RUN_RESPONSE r e) ! i) = Some False"
        by (intro exI [of _ k]) simp
    qed
    with ap(2) show ?thesis by simp
  qed
qed

text \<open>
  C7 as stated fails: the counter does not go up only when a pending run attempt becomes
  failed. A failed submission increments the same counter while no attempt changes: after
  one run that is still pending the counter is 0, the failed submission makes it 1, and
  the attempts are what they were, none of them failed.
\<close>

theorem failed_submission_counts_without_run_attempt:
  "incorrectRunCounter (wext (run [run_example] world_example)) = 0 \<and>
   incorrectRunCounter (wext (run [run_example, submit_fails_example] world_example)) = 1 \<and>
   attempts (wext (run [run_example, submit_fails_example] world_example))
     = attempts (wext (run [run_example] world_example)) \<and>
   failed_attempts (attempts (wext (run [run_example, submit_fails_example] world_example))) = 0"
  by (simp add: run_example_def payload_example_def world_example_def new_extractor_def
      submit_fails_example_def submission_example_def on_CODE_RUN_def on_failed_submission_def
      Let_def failed_attempts_def)

text \<open>
  C7, amended. The counter \<open>incorrectRunCounter\<close> goes up when a pending run attempt becomes
  failed, once per attempt, and when a submission fails. Over any sequence of messages
  without a successful submission, from any state: it grows by exactly the number of
  attempts that became failed plus the number of failed submissions, and an attempt that
  is resolved stays as it is for good, so that no attempt is counted twice. For one run
  result: the only attempt it can change is the most recent run attempt (no run attempt
  comes after it), and only while that one is pending; when that one is pending the
  result is applied to it, whatever else the state holds, and a failure is counted; and
  the counter goes up by one exactly when some pending attempt's outcome has become fail,
  else it stays. A failed submission adds one and changes no attempt.
\<close>

theorem run_failure_counted_once_per_attempt:
  assumes "\<forall>ev \<in> set evs. \<not> successful_submission ev"
  shows "incorrectRunCounter (wext (run evs w)) + failed_attempts (attempts (wext w))
           = incorrectRunCounter (wext w) + failed_attempts (attempts (wext (run evs w)))
             + failed_submissions evs \<and>
         (\<forall>i < length (attempts (wext w)).
            successful (attempts (wext w) ! i) \<noteq> None \<longrightarrow>
            attempts (wext (run evs w)) ! i = attempts (wext w) ! i) \<and>
         (\<forall>r e i. i < length (attempts e) \<and> attempts (on_RUN_RESPONSE r e) ! i \<noteq> attempts e ! i \<longrightarrow>
            att_type (attempts e ! i) = ''run'' \<and> successful (attempts e ! i) = None \<and>
            (\<forall>j. i < j \<and> j < length (attempts e) \<longrightarrow> att_type (attempts e ! j) \<noteq> ''run'') \<and>
            attempts (on_RUN_RESPONSE r e) ! i
              = (attempts e ! i)\<lparr>successful := Some (\<not> run_failed r)\<rparr>) \<and>
         (\<forall>r e i. last_run_index (attempts e) = Some i \<and> successful (attempts e ! i) = None \<longrightarrow>
            attempts (on_RUN_RESPONSE r e)
              = (attempts e)[i := (attempts e ! i)\<lparr>successful := Some (\<not> run_failed r)\<rparr>] \<and>
            incorrectRunCounter (on_RUN_RESPONSE r e)
              = incorrectRunCounter e + (if run_failed r then 1 else 0)) \<and>
         (\<forall>r e. incorrectRunCounter (on_RUN_RESPONSE r e)
            = incorrectRunCounter e +
              (if \<exists>i < length (attempts e). successful (attempts e ! i) = None \<and>
                    successful (attempts (on_RUN_RESPONSE r e) ! i) = Some False
               then 1 else 0)) \<and>
         (\<forall>e. incorrectRunCounter (on_failed_submission e) = incorrectRunCounter e + 1 \<and>
              attempts (on_failed_submission e) = attempts e)"
proof (intro conjI allI impI)
  from run_counter [OF assms, of w]
  show "incorrectRunCounter (wext (run evs w)) + failed_attempts (attempts (wext w))
           = incorrectRunCounter (wext w) + failed_attempts (attempts (wext (run evs w)))
             + failed_submissions evs" .
next
  fix i assume "i < length (attempts (wext w))" "successful (attempts (wext w) ! i) \<noteq> None"
  then show "attempts (wext (run evs w)) ! i = attempts (wext w) ! i"
    using run_resolved [OF assms] by blast
next
  fix r e i
  assume a: "i < length (attempts e) \<and> attempts (on_RUN_RESPONSE r e) ! i \<noteq> attempts e ! i"
  then have l: "last_run_index (attempts e) = Some i"
    and p: "successful (attempts e ! i) = None"
    and u: "attempts (on_RUN_RESPONSE r e) ! i
              = (attempts e ! i)\<lparr>successful := Some (\<not> run_failed r)\<rparr>"
    using on_RUN_RESPONSE_changes [of i e r] by blast+
  from last_run_index_Some [OF l]
  show "att_type (attempts e ! i) = ''run''" by blast
  from p u show "successful (attempts e ! i) = None"
    and "attempts (on_RUN_RESPONSE r e) ! i
           = (attempts e ! i)\<lparr>successful := Some (\<not> run_failed r)\<rparr>"
    by blast+
  fix j
  assume "i < j \<and> j < length (attempts e)"
  with last_run_index_Some [OF l] show "att_type (attempts e ! j) \<noteq> ''run''" by blast
next
  fix r and e :: extractor and i
  assume "last_run_index (attempts e) = Some i \<and> successful (attempts e ! i) = None"
  then have l: "last_run_index (attempts e) = Some i" and p: "successful (attempts e ! i) = None"
    by simp_all
  from on_RUN_RESPONSE_applied(1,2) [OF l p, of r]
  show "attempts (on_RUN_RESPONSE r e)
              = (attempts e)[i := (attempts e ! i)\<lparr>successful := Some (\<not> run_failed r)\<rparr>]"
    and "incorrectRunCounter (on_RUN_RESPONSE r e)
              = incorrectRunCounter e + (if run_failed r then 1 else 0)"
    by simp_all
next
  fix r e
  show "incorrectRunCounter (on_RUN_RESPONSE r e)
            = incorrectRunCounter e +
              (if \<exists>i < length (attempts e). successful (attempts e ! i) = None \<and>
                    successful (attempts (on_RUN_RESPONSE r e) ! i) = Some False
               then 1 else 0)"
    by (rule on_RUN_RESPONSE_counter_iff)
next
  fix e
  show "incorrectRunCounter (on_failed_submission e) = incorrectRunCounter e + 1"
    and "attempts (on_failed_submission e) = attempts e"
    by (simp_all add: on_failed_submission_fields)
qed

text \<open>A run that fails, a second result that finds no pending attempt, a failed
  submission, and another run that fails: two attempts, both failed, one failed
  submission, and the counter is 3.\<close>

theorem run_failure_counted_once_per_attempt_witness:
  "incorrectRunCounter (wext (run [run_example, run_fails_example, run_fails_example,
                                   submit_fails_example, run_example, run_fails_example]
                                world_example)) = 3 \<and>
   failed_attempts (attempts (wext (run [run_example, run_fails_example, run_fails_example,
                                   submit_fails_example, run_example, run_fails_example]
                                world_example))) = 2"
proof -
  have a: "\<forall>ev \<in> set [run_example, run_fails_example, run_fails_example,
                         submit_fails_example, run_example, run_fails_example].
             \<not> successful_submission ev"
    by (simp add: run_example_def run_fails_example_def submit_fails_example_def
        submission_example_def)
  have b: "incorrectRunCounter (wext world_example) = 0"
    "failed_attempts (attempts (wext world_example)) = 0"
    by (simp_all add: world_example_def new_extractor_def failed_attempts_def)
  have c: "failed_attempts (attempts (wext (run [run_example, run_fails_example, run_fails_example,
                                   submit_fails_example, run_example, run_fails_example]
                                world_example))) = 2"
    by (simp add: run_example_def run_fails_example_def payload_example_def world_example_def
        new_extractor_def submit_fails_example_def submission_example_def on_failed_submission_def
        on_CODE_RUN_def on_RUN_RESPONSE_def handleThreeIncorrectRuns_def Let_def
        failed_attempts_def)
  have d: "failed_submissions [run_example, run_fails_example, run_fails_example,
                               submit_fails_example, run_example, run_fails_example] = 1"
    by (simp add: run_example_def run_fails_example_def submit_fails_example_def
        submission_example_def failed_submissions_def)
  show ?thesis
    using run_failure_counted_once_per_attempt [OF a, of world_example] b c d by simp
qed

text \<open>
  C3 as stated fails: the listener has one failure counter. After one failed run
  \<open>incorrectRunCounter\<close> is 1, and each of two failed submissions increments that same
  counter, to 2 and to 3, where the submit branch sets the latch. With the two separate
  counters of the specification (one run failure, two submit failures) the latch would
  not be set.
\<close>

theorem failed_submit_increments_run_failure_counter:
  "incorrectRunCounter (wext (run [run_example, run_fails_example] world_example)) = 1 \<and>
   incorrectRunCounter (wext (run [run_example, run_fails_example, submit_fails_example]
                                world_example)) = 2 \<and>
   incorrectRunCounter (wext (run [run_example, run_fails_example, submit_fails_example,
                                   submit_fails_example] world_example)) = 3 \<and>
   hasAnalyzedMistakes (wext (run [run_example, run_fails_example, submit_fails_example,
                                   submit_fails_example] world_example)) \<and>
   \<not> analysisLatched (spec_submit_failure (spec_submit_failure (spec_run_failure spec_new)))"
  by (simp add: run_example_def run_fails_example_def payload_example_def world_example_def new_extractor_def
      submit_fails_example_def submission_example_def on_CODE_RUN_def on_RUN_RESPONSE_def handleThreeIncorrectRuns_def Let_def on_failed_submission_def
      spec_new_def spec_run_failure_def
      spec_submit_failure_def)

text \<open>
  C3, amended. Failed submissions are counted in the counter of the failed runs: over
  any sequence of messages without a successful submission, \<open>incorrectRunCounter\<close> grows
  by the number of attempts that became failed plus the number of failed submissions.
  A failed submission increments it by one and leaves the latch set when it was set or
  when the counter has reached 3; a failed run (a failure result for the pending last run
  attempt) increments it by one and leaves the latch set when it was set or when the
  counter has reached 2.
\<close>

theorem failed_submissions_share_the_run_counter:
  assumes "\<forall>ev \<in> set evs. \<not> successful_submission ev"
  shows "incorrectRunCounter (wext (run evs w)) + failed_attempts (attempts (wext w))
           = incorrectRunCounter (wext w) + failed_attempts (attempts (wext (run evs w)))
             + failed_submissions evs \<and>
         (\<forall>e. incorrectRunCounter (on_failed_submission e) = incorrectRunCounter e + 1 \<and>
              hasAnalyzedMistakes (on_failed_submission e)
                = (hasAnalyzedMistakes e \<or> 3 \<le> incorrectRunCounter e + 1)) \<and>
         (\<forall>r e i. last_run_index (attempts e) = Some i \<and> successful (attempts e ! i) = None \<and>
                  run_failed r \<longrightarrow>
              incorrectRunCounter (on_RUN_RESPONSE r e) = incorrectRunCounter e + 1 \<and>
              hasAnalyzedMistakes (on_RUN_RESPONSE r e)
                = (hasAnalyzedMistakes e \<or> 2 \<le> incorrectRunCounter e + 1))"
  using run_counter [OF assms, of w] on_failed_submission_fields(1,2)
    on_RUN_RESPONSE_applied(2,3)
  by simp

theorem failed_submissions_share_the_run_counter_witness:
  "incorrectRunCounter (wext (run [run_example, run_fails_example, submit_fails_example,
                                   submit_fails_example] world_example))
     = failed_attempts (attempts (wext (run [run_example, run_fails_example,
                                   submit_fails_example, submit_fails_example] world_example)))
       + 2"
proof -
  have a: "\<forall>ev \<in> set [run_example, run_fails_example, submit_fails_example,
                         submit_fails_example]. \<not> successful_submission ev"
    by (simp add: run_example_def run_fails_example_def submit_fails_example_def submission_example_def)
  have b: "incorrectRunCounter (wext world_example) = 0"
    "failed_attempts (attempts (wext world_example)) = 0"
    by (simp_all add: world_example_def new_extractor_def failed_attempts_def)
  have c: "failed_submissions [run_example, run_fails_example, submit_fails_example,
                               submit_fails_example] = 2"
    by (simp add: run_example_def run_fails_example_def submit_fails_example_def submission_example_def
        failed_submissions_def)
  show ?thesis
    using failed_submissions_share_the_run_counter [OF a, of world_example] b c by simp
qed

section \<open>Properties of the pipeline\<close>

lemma fetchQuestionDetails_tracking [simp]:
  "attempts (fetchQuestionDetails pg e) = attempts e"
  "runCounter (fetchQuestionDetails pg e) = runCounter e"
  "incorrectRunCounter (fetchQuestionDetails pg e) = incorrectRunCounter e"
  "hasAnalyzedMistakes (fetchQuestionDetails pg e) = hasAnalyzedMistakes e"
  "shouldAnalyzeWithGemini (fetchQuestionDetails pg e) = shouldAnalyzeWithGemini e"
  "aiAnalysis (fetchQuestionDetails pg e) = aiAnalysis e"
  "aiTags (fetchQuestionDetails pg e) = aiTags e"
  "TRIES (fetchQuestionDetails pg e) = TRIES e"
  "PUBLIC_CODE (fetchQuestionDetails pg e) = PUBLIC_CODE e"
  "SELECTED_LANGUAGE (fetchQuestionDetails pg e) = SELECTED_LANGUAGE e"
  "PROBLEM_SLUG (fetchQuestionDetails pg e) = PROBLEM_SLUG e"
  by (simp_all add: fetchQuestionDetails_def Let_def split: option.splits)

lemma refill_from_storage_tracking [simp]:
  "attempts (refill_from_storage now st e) = attempts e"
  "runCounter (refill_from_storage now st e) = runCounter e"
  "incorrectRunCounter (refill_from_storage now st e) = incorrectRunCounter e"
  "hasAnalyzedMistakes (refill_from_storage now st e) = hasAnalyzedMistakes e"
  "shouldAnalyzeWithGemini (refill_from_storage now st e) = shouldAnalyzeWithGemini e"
  "aiAnalysis (refill_from_storage now st e) = aiAnalysis e"
  "aiTags (refill_from_storage now st e) = aiTags e"
  "TRIES (refill_from_storage now st e) = TRIES e"
  by (simp_all add: refill_from_storage_def Let_def)

lemma stored_or_nonempty: "cur \<noteq> [] \<Longrightarrow> stored_or v cur \<noteq> []"
  by (simp add: stored_or_def split: jsval.splits)

lemma refill_from_storage_kept:
  "PUBLIC_CODE e \<noteq> [] \<Longrightarrow> PUBLIC_CODE (refill_from_storage now st e) \<noteq> []"
  "SELECTED_LANGUAGE e \<noteq> [] \<Longrightarrow> SELECTED_LANGUAGE (refill_from_storage now st e) \<noteq> []"
  "PROBLEM_SLUG e \<noteq> [] \<Longrightarrow> PROBLEM_SLUG (refill_from_storage now st e) \<noteq> []"
  by (simp_all add: refill_from_storage_def Let_def stored_or_nonempty)

lemma refill_from_storage_full:
  "PUBLIC_CODE e \<noteq> [] \<Longrightarrow> SELECTED_LANGUAGE e \<noteq> [] \<Longrightarrow> PROBLEM_SLUG e \<noteq> [] \<Longrightarrow>
     refill_from_storage now st e = e"
  by (simp add: refill_from_storage_def)

lemma extractProblemInfo_snd:
  "snd (extractProblemInfo pg now st e) = refill_from_storage now st (fetchQuestionDetails pg e)
   \<or> (\<exists>p. snd (extractProblemInfo pg now st e)
          = (refill_from_storage now st (fetchQuestionDetails pg e))\<lparr>currentProblem := Some p\<rparr>)"
proof (cases "fst (extractProblemInfo pg now st e)")
  case None
  then show ?thesis
    by (simp add: extractProblemInfo_def Let_def split: if_splits)
next
  case (Some p)
  then have "snd (extractProblemInfo pg now st e)
          = (refill_from_storage now st (fetchQuestionDetails pg e))\<lparr>currentProblem := Some p\<rparr>"
    by (auto simp add: extractProblemInfo_def Let_def split: if_splits)
  then show ?thesis by blast
qed

lemma extractProblemInfo_tracking [simp]:
  "attempts (snd (extractProblemInfo pg now st e)) = attempts e"
  "runCounter (snd (extractProblemInfo pg now st e)) = runCounter e"
  "incorrectRunCounter (snd (extractProblemInfo pg now st e)) = incorrectRunCounter e"
  "hasAnalyzedMistakes (snd (extractProblemInfo pg now st e)) = hasAnalyzedMistakes e"
  "shouldAnalyzeWithGemini (snd (extractProblemInfo pg now st e)) = shouldAnalyzeWithGemini e"
  "aiAnalysis (snd (extractProblemInfo pg now st e)) = aiAnalysis e"
  "aiTags (snd (extractProblemInfo pg now st e)) = aiTags e"
  "TRIES (snd (extractProblemInfo pg now st e)) = TRIES e"
  using extractProblemInfo_snd [of pg now st e] by auto

lemma extractProblemInfo_cached:
  "PUBLIC_CODE (snd (extractProblemInfo pg now st e))
     = PUBLIC_CODE (refill_from_storage now st (fetchQuestionDetails pg e))"
  "SELECTED_LANGUAGE (snd (extractProblemInfo pg now st e))
     = SELECTED_LANGUAGE (refill_from_storage now st (fetchQuestionDetails pg e))"
  "PROBLEM_SLUG (snd (extractProblemInfo pg now st e))
     = PROBLEM_SLUG (refill_from_storage now st (fetchQuestionDetails pg e))"
  using extractProblemInfo_snd [of pg now st e] by auto

lemma extractProblemInfo_code:
  "fst (extractProblemInfo pg now st e) = Some p \<Longrightarrow>
     code p = PUBLIC_CODE (snd (extractProblemInfo pg now st e))"
  by (auto simp add: extractProblemInfo_def Let_def split: if_splits)

lemma extractProblemInfo_cache_kept:
  "PUBLIC_CODE e \<noteq> [] \<Longrightarrow> PUBLIC_CODE (snd (extractProblemInfo pg now st e)) \<noteq> []"
  "SELECTED_LANGUAGE e \<noteq> [] \<Longrightarrow> SELECTED_LANGUAGE (snd (extractProblemInfo pg now st e)) \<noteq> []"
  "PROBLEM_SLUG e \<noteq> [] \<Longrightarrow> PROBLEM_SLUG (snd (extractProblemInfo pg now st e)) \<noteq> []"
  by (simp_all add: extractProblemInfo_cached refill_from_storage_kept)

lemma extractProblemInfo_cache_full:
  assumes "PUBLIC_CODE e \<noteq> []" and "SELECTED_LANGUAGE e \<noteq> []" and "PROBLEM_SLUG e \<noteq> []"
  shows "PUBLIC_CODE (snd (extractProblemInfo pg now st e)) = PUBLIC_CODE e"
    and "SELECTED_LANGUAGE (snd (extractProblemInfo pg now st e)) = SELECTED_LANGUAGE e"
    and "PROBLEM_SLUG (snd (extractProblemInfo pg now st e)) = PROBLEM_SLUG e"
  using assms by (simp_all add: extractProblemInfo_cached refill_from_storage_full)

lemma analysis_stage_keeps [simp]:
  "attempts (wext (analysis_stage env pinfo w)) = attempts (wext w)"
  "runCounter (wext (analysis_stage env pinfo w)) = runCounter (wext w)"
  "incorrectRunCounter (wext (analysis_stage env pinfo w)) = incorrectRunCounter (wext w)"
  "hasAnalyzedMistakes (wext (analysis_stage env pinfo w)) = hasAnalyzedMistakes (wext w)"
  "shouldAnalyzeWithGemini (wext (analysis_stage env pinfo w)) = shouldAnalyzeWithGemini (wext w)"
  "TRIES (wext (analysis_stage env pinfo w)) = TRIES (wext w)"
  "PUBLIC_CODE (wext (analysis_stage env pinfo w)) = PUBLIC_CODE (wext w)"
  "wsync (analysis_stage env pinfo w) = wsync w"
  by (simp_all add: analysis_stage_def Let_def split: prod.splits sum.splits gemini_result.splits)

lemma analysis_stage_backend [simp]:
  "analysis_stage (env\<lparr>env_backend := b\<rparr>) pinfo w = analysis_stage env pinfo w"
  by (simp add: analysis_stage_def Let_def split: prod.splits sum.splits gemini_result.splits)

lemma backend_stage_keeps [simp]:
  "wext (backend_stage env pinfo w) = wext w"
  "wsync (backend_stage env pinfo w) = wsync w"
  "wlocal (backend_stage env pinfo w) = wlocal w"
  by (simp_all add: backend_stage_def Let_def)

lemma github_stage_ext:
  "wext (github_stage env pinfo w)
     = (if github_push_enabled (wsync w) \<longrightarrow> env_github env = GitHubResult True
        then clear_transient (wext w) else wext w)"
  by (auto simp add: github_stage_def split: github_outcome.splits bool.splits)

lemma handle_aborts:
  assumes "\<not> passes_extraction env w"
  shows "handleSuccessfulSubmission env sd w
           = w\<lparr>wext := snd (extractProblemInfo (env_page env) (env_now env) (wlocal w) (wext w))\<rparr>"
  using assms
  by (auto simp add: handleSuccessfulSubmission_def passes_extraction_def
      split: prod.splits option.splits)

lemma handle_passes:
  assumes "passes_extraction env w"
  obtains p0 e1 where
    "extractProblemInfo (env_page env) (env_now env) (wlocal w) (wext w) = (Some p0, e1)"
    "10 \<le> length (code p0)" "code p0 = PUBLIC_CODE e1"
    "handleSuccessfulSubmission env sd w
       = github_stage env (p0\<lparr>stats := Some sd\<rparr>)
           (backend_stage env (p0\<lparr>stats := Some sd\<rparr>)
             (analysis_stage env (p0\<lparr>stats := Some sd\<rparr>)
               (w\<lparr>wext := e1\<lparr>currentProblem := Some (p0\<lparr>stats := Some sd\<rparr>)\<rparr>,
                  wlocal := storeProblemData (env_now env) (env_stamp env) (wtimer w)
                              (p0\<lparr>stats := Some sd\<rparr>) True
                              (e1\<lparr>currentProblem := Some (p0\<lparr>stats := Some sd\<rparr>)\<rparr>) (wlocal w)\<rparr>)))"
proof -
  obtain r e1 where x: "extractProblemInfo (env_page env) (env_now env) (wlocal w) (wext w) = (r, e1)"
    by (cases "extractProblemInfo (env_page env) (env_now env) (wlocal w) (wext w)")
  with assms obtain p0 where p0: "r = Some p0" "10 \<le> length (code p0)"
    by (auto simp add: passes_extraction_def split: option.splits)
  have c: "code p0 = PUBLIC_CODE e1"
    using extractProblemInfo_code [of "env_page env" "env_now env" "wlocal w" "wext w" p0] x p0
    by simp
  have "code p0 \<noteq> []" using p0(2) by auto
  with x p0 c that show thesis
    by (simp add: handleSuccessfulSubmission_def Let_def)
qed

lemma passes_extraction_backend [simp]:
  "passes_extraction (env\<lparr>env_backend := b\<rparr>) w = passes_extraction env w"
  by (simp add: passes_extraction_def)


lemma handle_ext:
  assumes "passes_extraction env w"
  shows "\<exists>w2 :: world. PUBLIC_CODE (wext w2) \<noteq> [] \<and>
           TRIES (wext w2) = TRIES (wext w) \<and>
           attempts (wext w2) = attempts (wext w) \<and>
           runCounter (wext w2) = runCounter (wext w) \<and>
           incorrectRunCounter (wext w2) = incorrectRunCounter (wext w) \<and>
           hasAnalyzedMistakes (wext w2) = hasAnalyzedMistakes (wext w) \<and>
           shouldAnalyzeWithGemini (wext w2) = shouldAnalyzeWithGemini (wext w) \<and>
           (\<forall>b. wext (handleSuccessfulSubmission (env\<lparr>env_backend := b\<rparr>) sd w)
              = (if github_push_enabled (wsync w) \<longrightarrow> env_github env = GitHubResult True
                 then clear_transient (wext w2) else wext w2))"
proof -
  from handle_passes [OF assms, of sd] obtain p0 e1 where
    x: "extractProblemInfo (env_page env) (env_now env) (wlocal w) (wext w) = (Some p0, e1)"
    and len: "10 \<le> length (code p0)" and c: "code p0 = PUBLIC_CODE e1"
    by blast
  let ?pinfo = "p0\<lparr>stats := Some sd\<rparr>"
  let ?w1 = "w\<lparr>wext := e1\<lparr>currentProblem := Some ?pinfo\<rparr>,
                wlocal := storeProblemData (env_now env) (env_stamp env) (wtimer w)
                            ?pinfo True (e1\<lparr>currentProblem := Some ?pinfo\<rparr>) (wlocal w)\<rparr>"
  let ?w2 = "analysis_stage env ?pinfo ?w1"
  have e1: "e1 = snd (extractProblemInfo (env_page env) (env_now env) (wlocal w) (wext w))"
    using x by simp
  have code: "PUBLIC_CODE (wext ?w2) \<noteq> []"
    using len c by auto
  have keep: "TRIES (wext ?w2) = TRIES (wext w)" "attempts (wext ?w2) = attempts (wext w)"
    "runCounter (wext ?w2) = runCounter (wext w)"
    "incorrectRunCounter (wext ?w2) = incorrectRunCounter (wext w)"
    "hasAnalyzedMistakes (wext ?w2) = hasAnalyzedMistakes (wext w)"
    "shouldAnalyzeWithGemini (wext ?w2) = shouldAnalyzeWithGemini (wext w)"
    by (simp_all add: e1)
  have all: "wext (handleSuccessfulSubmission (env\<lparr>env_backend := b\<rparr>) sd w)
              = (if github_push_enabled (wsync w) \<longrightarrow> env_github env = GitHubResult True
                 then clear_transient (wext ?w2) else wext ?w2)" for b
  proof -
    have p: "passes_extraction (env\<lparr>env_backend := b\<rparr>) w" using assms by simp
    from handle_passes [OF p, of sd] x obtain
      h: "handleSuccessfulSubmission (env\<lparr>env_backend := b\<rparr>) sd w
            = github_stage (env\<lparr>env_backend := b\<rparr>) ?pinfo
                (backend_stage (env\<lparr>env_backend := b\<rparr>) ?pinfo
                  (analysis_stage (env\<lparr>env_backend := b\<rparr>) ?pinfo ?w1))"
      by auto
    show ?thesis
      unfolding h by (simp add: github_stage_ext)
  qed
  show ?thesis
    by (rule exI [of _ ?w2], intro conjI allI) (fact code keep all)+
qed




text \<open>
  C6 as stated fails for the cached code: the extraction first refills the cached
  language, code and problem id from the stored copy of the last submission when one of
  them is empty, and only then finds the title missing. Here the memory is empty, the
  store holds a submission made 500 ms before, and the page shows no title: the
  pipeline aborts, and the cached code is no longer what it was.
\<close>

theorem aborted_extraction_refills_cached_code:
  "\<not> passes_extraction (env_example False GitHubThrows) world_stored_code \<and>
   PUBLIC_CODE (wext world_stored_code) = [] \<and>
   PUBLIC_CODE (wext (handleSuccessfulSubmission (env_example False GitHubThrows)
                       (submission_example True) world_stored_code))
     = ''int main() { return 0; }''"
  by code_simp

text \<open>
  C6, amended. If the extraction of a successful submission yields no title or no code
  of ten characters or more, the pipeline ends there: the local store (so no problem
  record), the settings and the collaborators' calls (so no analysis, backend push or
  code-host push) are as before, and so are the attempts, both counters, the latch, the
  analysis results and the tries. The cached code, language and problem id are not
  cleared: each that was non-empty is non-empty afterwards, and when all three were
  non-empty they are unchanged (otherwise the extraction may have refilled them from
  the stored copy of the last submission).
\<close>

theorem aborted_extraction_keeps_tracker:
  assumes "\<not> passes_extraction env w"
  shows "wlocal (handleSuccessfulSubmission env sd w) = wlocal w \<and>
         wsync (handleSuccessfulSubmission env sd w) = wsync w \<and>
         wcalls (handleSuccessfulSubmission env sd w) = wcalls w \<and>
         attempts (wext (handleSuccessfulSubmission env sd w)) = attempts (wext w) \<and>
         runCounter (wext (handleSuccessfulSubmission env sd w)) = runCounter (wext w) \<and>
         incorrectRunCounter (wext (handleSuccessfulSubmission env sd w))
           = incorrectRunCounter (wext w) \<and>
         hasAnalyzedMistakes (wext (handleSuccessfulSubmission env sd w))
           = hasAnalyzedMistakes (wext w) \<and>
         shouldAnalyzeWithGemini (wext (handleSuccessfulSubmission env sd w))
           = shouldAnalyzeWithGemini (wext w) \<and>
         aiAnalysis (wext (handleSuccessfulSubmission env sd w)) = aiAnalysis (wext w) \<and>
         aiTags (wext (handleSuccessfulSubmission env sd w)) = aiTags (wext w) \<and>
         TRIES (wext (handleSuccessfulSubmission env sd w)) = TRIES (wext w) \<and>
         (PUBLIC_CODE (wext w) \<noteq> [] \<longrightarrow>
            PUBLIC_CODE (wext (handleSuccessfulSubmission env sd w)) \<noteq> []) \<and>
         (SELECTED_LANGUAGE (wext w) \<noteq> [] \<longrightarrow>
            SELECTED_LANGUAGE (wext (handleSuccessfulSubmission env sd w)) \<noteq> []) \<and>
         (PROBLEM_SLUG (wext w) \<noteq> [] \<longrightarrow>
            PROBLEM_SLUG (wext (handleSuccessfulSubmission env sd w)) \<noteq> []) \<and>
         (PUBLIC_CODE (wext w) \<noteq> [] \<and> SELECTED_LANGUAGE (wext w) \<noteq> [] \<and>
          PROBLEM_SLUG (wext w) \<noteq> [] \<longrightarrow>
            PUBLIC_CODE (wext (handleSuccessfulSubmission env sd w)) = PUBLIC_CODE (wext w) \<and>
            SELECTED_LANGUAGE (wext (handleSuccessfulSubmission env sd w))
              = SELECTED_LANGUAGE (wext w) \<and>
            PROBLEM_SLUG (wext (handleSuccessfulSubmission env sd w)) = PROBLEM_SLUG (wext w))"
  unfolding handle_aborts [OF assms]
  by (simp add: extractProblemInfo_cache_kept extractProblemInfo_cache_full)

theorem aborted_extraction_keeps_tracker_witness:
  "wcalls (handleSuccessfulSubmission (env_example False GitHubThrows) (submission_example True)
             world_push_off) = [] \<and>
   wlocal (handleSuccessfulSubmission (env_example False GitHubThrows) (submission_example True)
             world_push_off) = [] \<and>
   TRIES (wext (handleSuccessfulSubmission (env_example False GitHubThrows)
             (submission_example True) world_push_off)) = 1 \<and>
   PUBLIC_CODE (wext (handleSuccessfulSubmission (env_example False GitHubThrows)
             (submission_example True) world_push_off)) \<noteq> []"
proof -
  have a: "\<not> passes_extraction (env_example False GitHubThrows) world_push_off"
    by code_simp
  have b: "wcalls world_push_off = []" "wlocal world_push_off = []"
    "TRIES (wext world_push_off) = 1" "PUBLIC_CODE (wext world_push_off) \<noteq> []"
    by (simp_all add: world_push_off_def world_example_def new_extractor_def)
  show ?thesis
    using aborted_extraction_keeps_tracker [OF a, of "submission_example True"] b by simp
qed

section \<open>The latch\<close>

lemma on_RUN_RESPONSE_latch_stays:
  "hasAnalyzedMistakes e \<Longrightarrow> hasAnalyzedMistakes (on_RUN_RESPONSE r e)"
  by (auto simp add: on_RUN_RESPONSE_def Let_def split: option.splits)

lemma step_keeps_latch:
  assumes "\<not> pipeline_resets ev w" and "hasAnalyzedMistakes (wext w)"
  shows "hasAnalyzedMistakes (wext (step ev w))"
proof (cases ev)
  case (CODE_SUBMIT p now)
  with assms show ?thesis by simp
next
  case (CODE_RUN p s)
  with assms show ?thesis by simp
next
  case (RUN_RESPONSE r)
  with assms show ?thesis by (simp add: on_RUN_RESPONSE_latch_stays)
next
  case (SUBMISSION_RESPONSE sd env)
  show ?thesis
  proof (cases "sub_success sd")
    case False
    with SUBMISSION_RESPONSE assms show ?thesis by (simp add: on_failed_submission_fields)
  next
    case True
    show ?thesis
    proof (cases "passes_extraction env w")
      case False
      with True SUBMISSION_RESPONSE assms show ?thesis by (simp add: handle_aborts)
    next
      case passes: True
      with True SUBMISSION_RESPONSE assms(1)
      have gh: "github_push_enabled (wsync w) \<and> env_github env \<noteq> GitHubResult True" by simp
      from handle_ext [OF passes, of sd] obtain w2 :: world where
        "hasAnalyzedMistakes (wext w2) = hasAnalyzedMistakes (wext w)"
        and all: "\<And>b. wext (handleSuccessfulSubmission (env\<lparr>env_backend := b\<rparr>) sd w)
              = (if github_push_enabled (wsync w) \<longrightarrow> env_github env = GitHubResult True
                 then clear_transient (wext w2) else wext w2)"
        by blast
      moreover have "env\<lparr>env_backend := env_backend env\<rparr> = env" by simp
      ultimately have "hasAnalyzedMistakes (wext (handleSuccessfulSubmission env sd w))
                         = hasAnalyzedMistakes (wext w)"
        using gh all [of "env_backend env"] by simp
      with True SUBMISSION_RESPONSE assms(2) show ?thesis by simp
    qed
  qed
qed

lemma latch_stays:
  assumes "no_reset evs w" and "hasAnalyzedMistakes (wext w)"
  shows "hasAnalyzedMistakes (wext (run evs w)) \<and> latch_rises evs w = 0"
  using assms
proof (induction evs arbitrary: w)
  case Nil
  then show ?case by simp
next
  case (Cons ev evs)
  from Cons.prems have a: "\<not> pipeline_resets ev w" and b: "no_reset evs (step ev w)"
    by simp_all
  from step_keeps_latch [OF a Cons.prems(2)] have c: "hasAnalyzedMistakes (wext (step ev w))" .
  from Cons.IH [OF b c] Cons.prems(2) show ?case by simp
qed

lemma latch_rises_at_most_once:
  assumes "no_reset evs w"
  shows "latch_rises evs w \<le> 1"
  using assms
proof (induction evs arbitrary: w)
  case Nil
  then show ?case by simp
next
  case (Cons ev evs)
  from Cons.prems have b: "no_reset evs (step ev w)" by simp
  show ?case
  proof (cases "hasAnalyzedMistakes (wext (step ev w))")
    case True
    from latch_stays [OF b True] show ?thesis by simp
  next
    case False
    with Cons.IH [OF b] show ?thesis by simp
  qed
qed

lemma flag_fields [simp]:
  "shouldAnalyzeWithGemini (handleThreeIncorrectRuns e)"
  "shouldAnalyzeWithGemini (on_CODE_RUN p s e) = shouldAnalyzeWithGemini e"
  "shouldAnalyzeWithGemini (wext (on_CODE_SUBMIT q now w)) = shouldAnalyzeWithGemini (wext w)"
  by (simp_all add: handleThreeIncorrectRuns_def on_CODE_RUN_def on_CODE_SUBMIT_def Let_def)

lemma on_RUN_RESPONSE_flags:
  assumes "last_run_index (attempts e) = Some i" and "successful (attempts e ! i) = None"
    and "run_failed r"
  shows "hasAnalyzedMistakes (on_RUN_RESPONSE r e)
           = (hasAnalyzedMistakes e \<or> 1 \<le> incorrectRunCounter e)"
    and "shouldAnalyzeWithGemini (on_RUN_RESPONSE r e)
           = (shouldAnalyzeWithGemini e \<or> \<not> hasAnalyzedMistakes e \<and> 1 \<le> incorrectRunCounter e)"
  using assms
  by (auto simp add: on_RUN_RESPONSE_def run_failed_def handleThreeIncorrectRuns_def Let_def)

lemma on_RUN_RESPONSE_no_failure:
  assumes "last_run_index (attempts e) = None \<or>
           (\<exists>i. last_run_index (attempts e) = Some i \<and> successful (attempts e ! i) \<noteq> None) \<or>
           \<not> run_failed r"
  shows "hasAnalyzedMistakes (on_RUN_RESPONSE r e) = hasAnalyzedMistakes e"
    and "shouldAnalyzeWithGemini (on_RUN_RESPONSE r e) = shouldAnalyzeWithGemini e"
  using assms
  by (auto simp add: on_RUN_RESPONSE_def run_failed_def Let_def split: option.splits)

lemma on_failed_submission_flags:
  "hasAnalyzedMistakes (on_failed_submission e)
     = (hasAnalyzedMistakes e \<or> 2 \<le> incorrectRunCounter e)"
  "shouldAnalyzeWithGemini (on_failed_submission e)
     = (shouldAnalyzeWithGemini e \<or> \<not> hasAnalyzedMistakes e \<and> 2 \<le> incorrectRunCounter e)"
  by (auto simp add: on_failed_submission_def handleThreeIncorrectRuns_def Let_def)

lemma on_RUN_RESPONSE_flag_kept:
  "shouldAnalyzeWithGemini (on_RUN_RESPONSE r e)
     = (if hasAnalyzedMistakes e then shouldAnalyzeWithGemini e
        else shouldAnalyzeWithGemini e \<or> hasAnalyzedMistakes (on_RUN_RESPONSE r e))"
  by (auto simp add: on_RUN_RESPONSE_def handleThreeIncorrectRuns_def Let_def
      split: option.splits)

lemma submission_pipeline_flags:
  assumes "sub_success sd" and "\<not> pipeline_resets (SUBMISSION_RESPONSE sd env) w"
  shows "hasAnalyzedMistakes (wext (handleSuccessfulSubmission env sd w))
           = hasAnalyzedMistakes (wext w)"
    and "shouldAnalyzeWithGemini (wext (handleSuccessfulSubmission env sd w))
           = shouldAnalyzeWithGemini (wext w)"
proof -
  have "hasAnalyzedMistakes (wext (handleSuccessfulSubmission env sd w))
           = hasAnalyzedMistakes (wext w) \<and>
        shouldAnalyzeWithGemini (wext (handleSuccessfulSubmission env sd w))
           = shouldAnalyzeWithGemini (wext w)"
  proof (cases "passes_extraction env w")
    case False
    then show ?thesis by (simp add: handle_aborts)
  next
    case passes: True
    with assms
    have gh: "github_push_enabled (wsync w) \<and> env_github env \<noteq> GitHubResult True" by simp
    from handle_ext [OF passes, of sd] obtain w2 :: world where
      "hasAnalyzedMistakes (wext w2) = hasAnalyzedMistakes (wext w)"
      and "shouldAnalyzeWithGemini (wext w2) = shouldAnalyzeWithGemini (wext w)"
      and all: "\<And>b. wext (handleSuccessfulSubmission (env\<lparr>env_backend := b\<rparr>) sd w)
              = (if github_push_enabled (wsync w) \<longrightarrow> env_github env = GitHubResult True
                 then clear_transient (wext w2) else wext w2)"
      by blast
    moreover have "env\<lparr>env_backend := env_backend env\<rparr> = env" by simp
    ultimately show ?thesis
      using gh all [of "env_backend env"] by simp
  qed
  then show "hasAnalyzedMistakes (wext (handleSuccessfulSubmission env sd w))
           = hasAnalyzedMistakes (wext w)"
    and "shouldAnalyzeWithGemini (wext (handleSuccessfulSubmission env sd w))
           = shouldAnalyzeWithGemini (wext w)"
    by simp_all
qed

text \<open>Without a reset the flag is not cleared, and once the latch is set the flag is
  not touched.\<close>

lemma step_flag:
  assumes "\<not> pipeline_resets ev w"
  shows "shouldAnalyzeWithGemini (wext w) \<longrightarrow> shouldAnalyzeWithGemini (wext (step ev w))"
    and "hasAnalyzedMistakes (wext w) \<longrightarrow>
           shouldAnalyzeWithGemini (wext (step ev w)) = shouldAnalyzeWithGemini (wext w)"
proof -
  have "(shouldAnalyzeWithGemini (wext w) \<longrightarrow> shouldAnalyzeWithGemini (wext (step ev w))) \<and>
        (hasAnalyzedMistakes (wext w) \<longrightarrow>
           shouldAnalyzeWithGemini (wext (step ev w)) = shouldAnalyzeWithGemini (wext w))"
  proof (cases ev)
    case (CODE_SUBMIT p now)
    then show ?thesis by simp
  next
    case (CODE_RUN p s)
    then show ?thesis by simp
  next
    case (RUN_RESPONSE r)
    then show ?thesis using on_RUN_RESPONSE_flag_kept [of r "wext w"] by simp
  next
    case (SUBMISSION_RESPONSE sd env)
    show ?thesis
    proof (cases "sub_success sd")
      case False
      with SUBMISSION_RESPONSE show ?thesis by (simp add: on_failed_submission_flags)
    next
      case True
      with SUBMISSION_RESPONSE assms submission_pipeline_flags(2) [OF True, of env w]
      show ?thesis by simp
    qed
  qed
  then show "shouldAnalyzeWithGemini (wext w) \<longrightarrow> shouldAnalyzeWithGemini (wext (step ev w))"
    and "hasAnalyzedMistakes (wext w) \<longrightarrow>
           shouldAnalyzeWithGemini (wext (step ev w)) = shouldAnalyzeWithGemini (wext w)"
    by simp_all
qed

text \<open>The two flags are set together and cleared together: once equal, they stay
  equal.\<close>

lemma step_flags_equal:
  assumes "hasAnalyzedMistakes (wext w) = shouldAnalyzeWithGemini (wext w)"
  shows "hasAnalyzedMistakes (wext (step ev w)) = shouldAnalyzeWithGemini (wext (step ev w))"
proof (cases ev)
  case (CODE_SUBMIT p now)
  with assms show ?thesis by simp
next
  case (CODE_RUN p s)
  with assms show ?thesis by simp
next
  case (RUN_RESPONSE r)
  with assms on_RUN_RESPONSE_flag_kept [of r "wext w"] on_RUN_RESPONSE_latch_stays [of "wext w" r]
  show ?thesis by auto
next
  case (SUBMISSION_RESPONSE sd env)
  show ?thesis
  proof (cases "sub_success sd")
    case False
    with SUBMISSION_RESPONSE assms show ?thesis by (auto simp add: on_failed_submission_flags)
  next
    case True
    show ?thesis
    proof (cases "pipeline_resets ev w")
      case False
      with SUBMISSION_RESPONSE True assms submission_pipeline_flags [OF True, of env w]
      show ?thesis by simp
    next
      case resets: True
      with SUBMISSION_RESPONSE have passes: "passes_extraction env w"
        and gh: "github_push_enabled (wsync w) \<longrightarrow> env_github env = GitHubResult True"
        by simp_all
      from handle_ext [OF passes, of sd] obtain w2 :: world where
        all: "\<And>b. wext (handleSuccessfulSubmission (env\<lparr>env_backend := b\<rparr>) sd w)
              = (if github_push_enabled (wsync w) \<longrightarrow> env_github env = GitHubResult True
                 then clear_transient (wext w2) else wext w2)"
        by blast
      have "env\<lparr>env_backend := env_backend env\<rparr> = env" by simp
      with all [of "env_backend env"] gh
      have "wext (handleSuccessfulSubmission env sd w) = clear_transient (wext w2)" by simp
      with SUBMISSION_RESPONSE True show ?thesis by (simp add: clear_transient_def)
    qed
  qed
qed

lemma run_flags_equal:
  assumes "hasAnalyzedMistakes (wext w) = shouldAnalyzeWithGemini (wext w)"
  shows "hasAnalyzedMistakes (wext (run evs w)) = shouldAnalyzeWithGemini (wext (run evs w))"
  using assms
proof (induction evs arbitrary: w)
  case Nil
  then show ?case by simp
next
  case (Cons ev evs)
  from Cons.IH [OF step_flags_equal [OF Cons.prems]] show ?case by simp
qed

lemma flag_stays:
  assumes "no_reset evs w" and "shouldAnalyzeWithGemini (wext w)"
  shows "shouldAnalyzeWithGemini (wext (run evs w)) \<and> flag_rises evs w = 0"
  using assms
proof (induction evs arbitrary: w)
  case Nil
  then show ?case by simp
next
  case (Cons ev evs)
  from Cons.prems have a: "\<not> pipeline_resets ev w" and b: "no_reset evs (step ev w)"
    by simp_all
  from step_flag(1) [OF a] Cons.prems(2) have c: "shouldAnalyzeWithGemini (wext (step ev w))"
    by simp
  from Cons.IH [OF b c] Cons.prems(2) show ?case by simp
qed

lemma flag_rises_at_most_once:
  assumes "no_reset evs w"
  shows "flag_rises evs w \<le> 1"
  using assms
proof (induction evs arbitrary: w)
  case Nil
  then show ?case by simp
next
  case (Cons ev evs)
  from Cons.prems have b: "no_reset evs (step ev w)" by simp
  show ?case
  proof (cases "shouldAnalyzeWithGemini (wext (step ev w))")
    case True
    from flag_stays [OF b True] show ?thesis by simp
  next
    case False
    with Cons.IH [OF b] show ?thesis by simp
  qed
qed

lemma flag_untouched:
  assumes "no_reset evs w" and "hasAnalyzedMistakes (wext w)"
  shows "shouldAnalyzeWithGemini (wext (run evs w)) = shouldAnalyzeWithGemini (wext w) \<and>
         flag_rises evs w = 0"
  using assms
proof (induction evs arbitrary: w)
  case Nil
  then show ?case by simp
next
  case (Cons ev evs)
  from Cons.prems have a: "\<not> pipeline_resets ev w" and b: "no_reset evs (step ev w)"
    by simp_all
  from step_keeps_latch [OF a Cons.prems(2)] have c: "hasAnalyzedMistakes (wext (step ev w))" .
  from step_flag(2) [OF a] Cons.prems(2)
  have d: "shouldAnalyzeWithGemini (wext (step ev w)) = shouldAnalyzeWithGemini (wext w)"
    by simp
  from Cons.IH [OF b c] d show ?case by simp
qed

lemma last_run_index_snoc:
  "att_type a = ''run'' \<Longrightarrow> last_run_index (xs @ [a]) = Some (length xs)"
  by (induction xs) simp_all

lemma failed_run_round:
  assumes "usercode p = Some c" and "10 < length c" and "run_failed r"
  shows "incorrectRunCounter (on_RUN_RESPONSE r (on_CODE_RUN (Some p) s e))
           = incorrectRunCounter e + 1"
    and "hasAnalyzedMistakes (on_RUN_RESPONSE r (on_CODE_RUN (Some p) s e))
           = (hasAnalyzedMistakes e \<or> 1 \<le> incorrectRunCounter e)"
    and "shouldAnalyzeWithGemini (on_RUN_RESPONSE r (on_CODE_RUN (Some p) s e))
           = (shouldAnalyzeWithGemini e \<or> \<not> hasAnalyzedMistakes e \<and> 1 \<le> incorrectRunCounter e)"
proof -
  let ?e1 = "on_CODE_RUN (Some p) s e"
  from assms(1,2) have c: "c \<noteq> []" "truthy_str (usercode p)" "str_of (usercode p) = c"
    by auto
  then obtain a where a: "attempts ?e1 = attempts e @ [a]" "att_type a = ''run''"
    "successful a = None"
    using assms(2) by (simp add: on_CODE_RUN_def Let_def)
  have i: "last_run_index (attempts ?e1) = Some (length (attempts e))"
    using a by (simp add: last_run_index_snoc)
  have p: "successful (attempts ?e1 ! length (attempts e)) = None"
    using a by simp
  from on_RUN_RESPONSE_applied(2,3) [OF i p, of r] assms(3)
  show "incorrectRunCounter (on_RUN_RESPONSE r ?e1) = incorrectRunCounter e + 1"
    and "hasAnalyzedMistakes (on_RUN_RESPONSE r ?e1)
           = (hasAnalyzedMistakes e \<or> 1 \<le> incorrectRunCounter e)"
    by auto
  from on_RUN_RESPONSE_flags(2) [OF i p assms(3)]
  show "shouldAnalyzeWithGemini (on_RUN_RESPONSE r ?e1)
           = (shouldAnalyzeWithGemini e \<or> \<not> hasAnalyzedMistakes e \<and> 1 \<le> incorrectRunCounter e)"
    by simp
qed

text \<open>
  C4 as stated fails: an accepted submission whose pipeline reaches the reset block
  clears the latch without any change of problem. Two failed runs set it, the accepted
  submission (pushed to the code host) clears it, and two more failed runs on the same
  problem set it again: two transitions from false to true. And two failed runs do not
  set it when their code is too short to be kept as an attempt: a result with no
  pending attempt is dropped.
\<close>

theorem latch_rises_again_after_accepted_submission:
  "latch_rises [run_example, run_fails_example, run_example, run_fails_example,
                submit_example, accepted_example,
                run_example, run_fails_example, run_example, run_fails_example] world_example = 2 \<and>
   \<not> hasAnalyzedMistakes
       (wext (run [short_run_example, run_fails_example, short_run_example, run_fails_example]
                world_example))"
  by code_simp


text \<open>
  C4, amended. The latch is the pair of flags \<open>hasAnalyzedMistakes\<close> and
  \<open>shouldAnalyzeWithGemini\<close>, which \<open>handleThreeIncorrectRuns\<close> sets together and the reset
  blocks clear together: from a state in which they are equal, as the fresh one, they
  are equal after every sequence of messages. Between two
  resets of the tracker, that is, over any sequence of run and submit messages none of
  which is a successful submission whose pipeline reaches the reset block, each flag
  goes from false to true at most once; once \<open>hasAnalyzedMistakes\<close> is set it stays set
  and no later failure takes the latching action again: \<open>shouldAnalyzeWithGemini\<close> is
  left as it is, even where it is false. A failed run counts when its failure result
  finds the most recent run attempt still pending: that result sets both flags when the
  counter has been at 1 or more and \<open>hasAnalyzedMistakes\<close> is not set, and with
  \<open>hasAnalyzedMistakes\<close> set it changes neither; a result that finds no pending attempt,
  or that is no failure, changes neither. A failed submission sets both when the counter
  has been at 2 or more and \<open>hasAnalyzedMistakes\<close> is not set, and else changes neither.
  So two runs of code longer than ten characters, each answered by a failure before the
  next run, leave \<open>hasAnalyzedMistakes\<close> set from any state, and \<open>shouldAnalyzeWithGemini\<close>
  set from any state but one that has \<open>hasAnalyzedMistakes\<close> set without it.
\<close>

theorem latch_is_one_shot_between_resets:
  "(hasAnalyzedMistakes (wext w) = shouldAnalyzeWithGemini (wext w) \<longrightarrow>
      hasAnalyzedMistakes (wext (run evs w)) = shouldAnalyzeWithGemini (wext (run evs w))) \<and>
   (no_reset evs w \<longrightarrow>
      latch_rises evs w \<le> 1 \<and> flag_rises evs w \<le> 1 \<and>
      (hasAnalyzedMistakes (wext w) \<longrightarrow>
         hasAnalyzedMistakes (wext (run evs w)) \<and> latch_rises evs w = 0 \<and>
         shouldAnalyzeWithGemini (wext (run evs w)) = shouldAnalyzeWithGemini (wext w) \<and>
         flag_rises evs w = 0)) \<and>
   (\<forall>r e i. last_run_index (attempts e) = Some i \<and> successful (attempts e ! i) = None \<and>
            run_failed r \<longrightarrow>
      hasAnalyzedMistakes (on_RUN_RESPONSE r e)
        = (hasAnalyzedMistakes e \<or> 1 \<le> incorrectRunCounter e) \<and>
      shouldAnalyzeWithGemini (on_RUN_RESPONSE r e)
        = (shouldAnalyzeWithGemini e \<or> \<not> hasAnalyzedMistakes e \<and> 1 \<le> incorrectRunCounter e)) \<and>
   (\<forall>r e. last_run_index (attempts e) = None \<or>
          (\<exists>i. last_run_index (attempts e) = Some i \<and> successful (attempts e ! i) \<noteq> None) \<or>
          \<not> run_failed r \<longrightarrow>
      hasAnalyzedMistakes (on_RUN_RESPONSE r e) = hasAnalyzedMistakes e \<and>
      shouldAnalyzeWithGemini (on_RUN_RESPONSE r e) = shouldAnalyzeWithGemini e) \<and>
   (\<forall>e. hasAnalyzedMistakes (on_failed_submission e)
          = (hasAnalyzedMistakes e \<or> 2 \<le> incorrectRunCounter e) \<and>
        shouldAnalyzeWithGemini (on_failed_submission e)
          = (shouldAnalyzeWithGemini e \<or> \<not> hasAnalyzedMistakes e \<and> 2 \<le> incorrectRunCounter e)) \<and>
   (usercode p1 = Some c1 \<and> 10 < length c1 \<and> run_failed r1 \<and>
    usercode p2 = Some c2 \<and> 10 < length c2 \<and> run_failed r2 \<longrightarrow>
      hasAnalyzedMistakes
        (wext (run [CODE_RUN (Some p1) s1, RUN_RESPONSE r1, CODE_RUN (Some p2) s2, RUN_RESPONSE r2]
                 w')) \<and>
      shouldAnalyzeWithGemini
        (wext (run [CODE_RUN (Some p1) s1, RUN_RESPONSE r1, CODE_RUN (Some p2) s2, RUN_RESPONSE r2]
                 w'))
        = (shouldAnalyzeWithGemini (wext w') \<or> \<not> hasAnalyzedMistakes (wext w')))"
proof (intro conjI impI allI)
  assume "hasAnalyzedMistakes (wext w) = shouldAnalyzeWithGemini (wext w)"
  then show "hasAnalyzedMistakes (wext (run evs w)) = shouldAnalyzeWithGemini (wext (run evs w))"
    by (rule run_flags_equal)
next
  assume "no_reset evs w"
  then show "latch_rises evs w \<le> 1" by (rule latch_rises_at_most_once)
next
  assume "no_reset evs w"
  then show "flag_rises evs w \<le> 1" by (rule flag_rises_at_most_once)
next
  assume "no_reset evs w" "hasAnalyzedMistakes (wext w)"
  then show "hasAnalyzedMistakes (wext (run evs w))" "latch_rises evs w = 0"
    "shouldAnalyzeWithGemini (wext (run evs w)) = shouldAnalyzeWithGemini (wext w)"
    "flag_rises evs w = 0"
    using latch_stays flag_untouched by blast+
next
  fix r and e :: extractor and i
  assume "last_run_index (attempts e) = Some i \<and> successful (attempts e ! i) = None \<and>
            run_failed r"
  then have l: "last_run_index (attempts e) = Some i" and p: "successful (attempts e ! i) = None"
    and f: "run_failed r" by simp_all
  from on_RUN_RESPONSE_flags [OF l p f]
  show "hasAnalyzedMistakes (on_RUN_RESPONSE r e)
        = (hasAnalyzedMistakes e \<or> 1 \<le> incorrectRunCounter e)"
    and "shouldAnalyzeWithGemini (on_RUN_RESPONSE r e)
        = (shouldAnalyzeWithGemini e \<or> \<not> hasAnalyzedMistakes e \<and> 1 \<le> incorrectRunCounter e)"
    by simp_all
next
  fix r and e :: extractor
  assume a: "last_run_index (attempts e) = None \<or>
          (\<exists>i. last_run_index (attempts e) = Some i \<and> successful (attempts e ! i) \<noteq> None) \<or>
          \<not> run_failed r"
  from on_RUN_RESPONSE_no_failure [OF a]
  show "hasAnalyzedMistakes (on_RUN_RESPONSE r e) = hasAnalyzedMistakes e"
    and "shouldAnalyzeWithGemini (on_RUN_RESPONSE r e) = shouldAnalyzeWithGemini e"
    by simp_all
next
  fix e
  show "hasAnalyzedMistakes (on_failed_submission e)
          = (hasAnalyzedMistakes e \<or> 2 \<le> incorrectRunCounter e)"
    and "shouldAnalyzeWithGemini (on_failed_submission e)
          = (shouldAnalyzeWithGemini e \<or> \<not> hasAnalyzedMistakes e \<and> 2 \<le> incorrectRunCounter e)"
    by (simp_all add: on_failed_submission_flags)
next
  assume a: "usercode p1 = Some c1 \<and> 10 < length c1 \<and> run_failed r1 \<and>
    usercode p2 = Some c2 \<and> 10 < length c2 \<and> run_failed r2"
  let ?e1 = "on_RUN_RESPONSE r1 (on_CODE_RUN (Some p1) s1 (wext w'))"
  let ?e2 = "on_RUN_RESPONSE r2 (on_CODE_RUN (Some p2) s2 ?e1)"
  have c1: "incorrectRunCounter ?e1 = incorrectRunCounter (wext w') + 1"
    using a failed_run_round(1) by blast
  have h1: "hasAnalyzedMistakes ?e1
              = (hasAnalyzedMistakes (wext w') \<or> 1 \<le> incorrectRunCounter (wext w'))"
    using a failed_run_round(2) by blast
  have f1: "shouldAnalyzeWithGemini ?e1
              = (shouldAnalyzeWithGemini (wext w') \<or>
                 \<not> hasAnalyzedMistakes (wext w') \<and> 1 \<le> incorrectRunCounter (wext w'))"
    using a failed_run_round(3) by blast
  have h2: "hasAnalyzedMistakes ?e2 = (hasAnalyzedMistakes ?e1 \<or> 1 \<le> incorrectRunCounter ?e1)"
    using a failed_run_round(2) by blast
  have f2: "shouldAnalyzeWithGemini ?e2
              = (shouldAnalyzeWithGemini ?e1 \<or>
                 \<not> hasAnalyzedMistakes ?e1 \<and> 1 \<le> incorrectRunCounter ?e1)"
    using a failed_run_round(3) by blast
  from c1 h2 show "hasAnalyzedMistakes
        (wext (run [CODE_RUN (Some p1) s1, RUN_RESPONSE r1, CODE_RUN (Some p2) s2, RUN_RESPONSE r2]
                 w'))"
    by simp
  from c1 h1 f1 f2 show "shouldAnalyzeWithGemini
        (wext (run [CODE_RUN (Some p1) s1, RUN_RESPONSE r1, CODE_RUN (Some p2) s2, RUN_RESPONSE r2]
                 w'))
        = (shouldAnalyzeWithGemini (wext w') \<or> \<not> hasAnalyzedMistakes (wext w'))"
    by auto
qed

text \<open>Three failed runs and a failed submission from the fresh state: the latch rises
  once; after the second failed run both flags are set.\<close>

theorem latch_is_one_shot_between_resets_witness:
  "latch_rises [run_example, run_fails_example, run_example, run_fails_example, run_example,
                run_fails_example, submit_fails_example] world_example \<le> 1 \<and>
   flag_rises [run_example, run_fails_example, run_example, run_fails_example, run_example,
                run_fails_example, submit_fails_example] world_example \<le> 1 \<and>
   hasAnalyzedMistakes
     (wext (run [run_example, run_fails_example, run_example, run_fails_example] world_example)) \<and>
   shouldAnalyzeWithGemini
     (wext (run [run_example, run_fails_example, run_example, run_fails_example] world_example))"
proof -
  have a: "no_reset [run_example, run_fails_example, run_example, run_fails_example, run_example,
                run_fails_example, submit_fails_example] world_example"
    by (simp add: run_example_def run_fails_example_def submit_fails_example_def submission_example_def)
  have b: "usercode payload_example = Some ''int main() { return 0; }'' \<and>
           10 < length ''int main() { return 0; }'' \<and>
           run_failed \<lparr>run_success = False, run_status = ''Wrong Answer''\<rparr>"
    by (simp add: payload_example_def run_failed_def)
  have c: "\<not> hasAnalyzedMistakes (wext world_example)"
    by (simp add: world_example_def new_extractor_def)
  show ?thesis
    using latch_is_one_shot_between_resets [where evs = "[run_example, run_fails_example,
        run_example, run_fails_example, run_example, run_fails_example, submit_fails_example]"
        and w = world_example
        and ?p1.0 = payload_example and ?c1.0 = "''int main() { return 0; }''"
        and ?r1.0 = "\<lparr>run_success = False, run_status = ''Wrong Answer''\<rparr>"
        and ?p2.0 = payload_example and ?c2.0 = "''int main() { return 0; }''"
        and ?r2.0 = "\<lparr>run_success = False, run_status = ''Wrong Answer''\<rparr>"
        and ?s1.0 = "''2026-01-01T00:00:00.000Z''" and ?s2.0 = "''2026-01-01T00:00:00.000Z''"
        and w' = world_example] a b c
    unfolding run_example_def run_fails_example_def by blast
qed

section \<open>Properties of the mistake analysis\<close>


















end
